theory Spec2Isabelle
  imports Complex_Main "HOL-Library.Sublist" "HOL-Library.Multiset"
begin

section \<open>Style sheet placeholders\<close>

text \<open>
  \<^verbatim>\<open>QString::replace(before, after)\<close> scans the string once from left to right. Every
  occurrence of \<open>before\<close> that does not overlap an earlier one is replaced by \<open>after\<close>;
  the text that was put in is not scanned again. With an empty \<open>before\<close> the toolkit
  inserts \<open>after\<close> in front of every character and at the end.
\<close>

function QString_replace :: "string \<Rightarrow> string \<Rightarrow> string \<Rightarrow> string" where
  "QString_replace pat rep s =
     (if pat = [] then rep @ concat (map (\<lambda>c. c # rep) s)
      else if s = [] then []
      else if prefix pat s
        then rep @ QString_replace pat rep (drop (length pat) s)
      else hd s # QString_replace pat rep (tl s))"
  by pat_completeness auto
termination
  by (relation "measure (\<lambda>(p, r, s). length s)") (auto simp: neq_Nil_conv)

declare QString_replace.simps [simp del]

text \<open>
  \<^verbatim>\<open>SettingsDialog::updateStyleSheet\<close>: the two placeholders are substituted one after
  the other, first \<^verbatim>\<open>[background-colour]\<close>, then \<^verbatim>\<open>[base-background-colour]\<close>.
\<close>

definition updateStyleSheet :: "string \<Rightarrow> bool \<Rightarrow> string" where
  "updateStyleSheet styleSheet isDarkMode =
     (if isDarkMode
      then QString_replace ''[base-background-colour]'' ''background-color: #202421;''
             (QString_replace ''[background-colour]'' ''background-color: #282c29;'' styleSheet)
      else QString_replace ''[base-background-colour]'' ''''
             (QString_replace ''[background-colour]'' '''' styleSheet))"

text \<open>
  A pattern and a replacement text are \<open>separated\<close> when the last character of each
  does not occur in the other. Then no occurrence of the pattern can start or end inside
  a copy of the replacement text.
\<close>

definition separated :: "string \<Rightarrow> string \<Rightarrow> bool" where
  "separated p rep \<longleftrightarrow> p \<noteq> [] \<and> rep \<noteq> [] \<and> last p \<notin> set rep \<and> last rep \<notin> set p"

subsection \<open>Replacing every occurrence of a placeholder\<close>

text \<open>
  What the substitution is meant to do, for comparison with the code above: the input is
  cut, from left to right, into the occurrences of the placeholders that are looked for
  (\<open>known\<close>) and the single characters between them, and every occurrence is then
  replaced by a text chosen for its placeholder. The two placeholders are 19 and 24
  characters long.
\<close>

datatype placeholder = BackgroundColour | BaseBackgroundColour

datatype piece = Plain char | Mark placeholder

fun placeholderText :: "placeholder \<Rightarrow> string" where
  "placeholderText BackgroundColour = ''[background-colour]''"
| "placeholderText BaseBackgroundColour = ''[base-background-colour]''"

function pieces :: "placeholder list \<Rightarrow> string \<Rightarrow> piece list" where
  "pieces known s =
     (if s = [] then []
      else if BackgroundColour \<in> set known \<and> prefix ''[background-colour]'' s
        then Mark BackgroundColour # pieces known (drop 19 s)
      else if BaseBackgroundColour \<in> set known \<and> prefix ''[base-background-colour]'' s
        then Mark BaseBackgroundColour # pieces known (drop 24 s)
      else Plain (hd s) # pieces known (tl s))"
  by pat_completeness auto
termination
  by (relation "measure (\<lambda>(known, s). length s)") (auto simp: neq_Nil_conv)

declare pieces.simps [simp del]

fun textOf :: "piece list \<Rightarrow> string" where
  "textOf [] = []"
| "textOf (Plain c # ps) = c # textOf ps"
| "textOf (Mark k # ps) = placeholderText k @ textOf ps"

fun substituted :: "(placeholder \<Rightarrow> string) \<Rightarrow> piece list \<Rightarrow> string" where
  "substituted repl [] = []"
| "substituted repl (Plain c # ps) = c # substituted repl ps"
| "substituted repl (Mark k # ps) = repl k @ substituted repl ps"

text \<open>The declarations that dark mode puts in, and the empty text of light mode.\<close>

fun darkDeclaration :: "placeholder \<Rightarrow> string" where
  "darkDeclaration BackgroundColour = ''background-color: #282c29;''"
| "darkDeclaration BaseBackgroundColour = ''background-color: #202421;''"

definition deleted :: "placeholder \<Rightarrow> string" where
  "deleted k = []"

definition allPlaceholders :: "placeholder list" where
  "allPlaceholders = [BackgroundColour, BaseBackgroundColour]"

section \<open>Pages and widgets\<close>

text \<open>
  A settings page is an object of the host application. The dialog only calls its
  interface \<^verbatim>\<open>ISettingsPage\<close>: \<^verbatim>\<open>section()\<close>, \<^verbatim>\<open>category()\<close>, \<^verbatim>\<open>description()\<close>,
  \<^verbatim>\<open>createWidget()\<close>, \<^verbatim>\<open>canAcceptSettings()\<close> and \<^verbatim>\<open>acceptSettings()\<close>. A page is
  modelled by the answers it gives; \<open>page_id\<close> stands for the identity of the object.
  The widget that \<^verbatim>\<open>createWidget()\<close> returns for the page with identity \<open>i\<close> is
  \<open>PageWidget i\<close>. A call of the page's \<^verbatim>\<open>acceptSettings()\<close> is recorded in a list of
  calls kept with the dialog. The answers of a page are taken to stay the same while the
  dialog is used; in particular the page's own \<^verbatim>\<open>acceptSettings()\<close> is taken not to
  change what its \<^verbatim>\<open>canAcceptSettings()\<close> answers. Icons, fonts, margins and the theme
  are not modelled.
\<close>

type_synonym QSize = "int \<times> int"

record ISettingsPage =
  page_id :: nat
  page_section :: string
  page_category :: string
  page_description :: string
  canAcceptSettings :: bool

datatype QWidget = PageWidget nat | SeparatorWidget

record QCloseEvent =
  isAccepted :: bool

section \<open>The tree-list layout\<close>

text \<open>
  The layout of every platform but macOS (the \<^verbatim>\<open>#else\<close> branches of the source). A
  top-level item of the tree shows a section; its \<^verbatim>\<open>UserRole\<close> data is the tab widget
  of the section, kept here as the list of its tabs.
\<close>

record QTreeWidgetItem =
  item_id :: nat
  item_text :: string
  item_toolTip :: string
  item_tabs :: "(QWidget \<times> string) list"

record SettingsPage =
  m_name :: string
  m_widget :: QWidget
  m_pageSettings :: ISettingsPage
  m_description :: string

text \<open>
  \<open>m_applyButton\<close> holds whether the Apply button is enabled. \<open>connected\<close> lists the
  pages whose \<^verbatim>\<open>settingsChanged\<close> signal is connected to the dialog, \<open>accepted\<close> the
  calls of \<^verbatim>\<open>acceptSettings()\<close> made on pages, \<open>closed\<close> counts the emissions of the
  \<^verbatim>\<open>closed()\<close> signal, and \<open>visible\<close> is whether the window is shown.
\<close>

record SettingsDialog =
  m_pages :: "SettingsPage list"
  m_treeWidget :: "QTreeWidgetItem list"
  m_applyButton :: bool
  m_currentPage :: "SettingsPage option"
  connected :: "nat list"
  accepted :: "ISettingsPage list"
  closed :: nat
  visible :: bool

text \<open>The search loop of \<^verbatim>\<open>addPage\<close>: the index of the first item whose text is the section.\<close>

fun findSection :: "string \<Rightarrow> QTreeWidgetItem list \<Rightarrow> nat option" where
  "findSection s [] = None"
| "findSection s (it # its) =
     (if s = item_text it then Some 0 else map_option Suc (findSection s its))"

text \<open>
  \<^verbatim>\<open>QTreeWidget::addTopLevelItem\<close> inserts nothing when the item already belongs to a
  tree, and \<^verbatim>\<open>new QTreeWidgetItem(m_treeWidget)\<close> has already appended the new item.
\<close>

definition addTopLevelItem :: "QTreeWidgetItem \<Rightarrow> QTreeWidgetItem list \<Rightarrow> QTreeWidgetItem list" where
  "addTopLevelItem it tree = (if item_id it \<in> set (map item_id tree) then tree else tree @ [it])"

definition addTab :: "QWidget \<times> string \<Rightarrow> QTreeWidgetItem \<Rightarrow> QTreeWidgetItem" where
  "addTab t it = it\<lparr>item_tabs := item_tabs it @ [t]\<rparr>"

text \<open>
  \<^verbatim>\<open>SettingsDialog::addPage\<close>, tree-list branch. \<open>tabWidget\<close> is the index of the item
  that owns the tab widget.
\<close>

definition addPage :: "ISettingsPage \<Rightarrow> SettingsDialog \<Rightarrow> SettingsPage \<times> SettingsDialog" where
  "addPage page d =
     (let tree = m_treeWidget d;
          (tabWidget, tree1) =
            (case findSection (page_section page) tree of
               Some i \<Rightarrow> (i, tree)
             | None \<Rightarrow>
                 (let treeItem = \<lparr>item_id = length tree, item_text = page_section page,
                                   item_toolTip = page_description page, item_tabs = []\<rparr>
                  in (length tree, addTopLevelItem treeItem (tree @ [treeItem]))));
          pageWidget = PageWidget (page_id page);
          tree2 = tree1[tabWidget := addTab (pageWidget, page_category page) (tree1 ! tabWidget)];
          settingsPage = \<lparr>m_name = page_section page, m_widget = pageWidget,
                           m_pageSettings = page, m_description = page_description page\<rparr>
      in (settingsPage, d\<lparr>m_treeWidget := tree2\<rparr>))"

text \<open>The constructor's loop over the pages: connect the signal, add the page, keep it.\<close>

fun registerPages :: "ISettingsPage list \<Rightarrow> SettingsDialog \<Rightarrow> SettingsDialog" where
  "registerPages [] d = d"
| "registerPages (page # pages) d =
     (let d1 = d\<lparr>connected := connected d @ [page_id page]\<rparr>;
          (settingsPage, d2) = addPage page d1
      in registerPages pages (d2\<lparr>m_pages := m_pages d2 @ [settingsPage]\<rparr>))"

definition SettingsDialog_new :: "ISettingsPage list \<Rightarrow> SettingsDialog" where
  "SettingsDialog_new pages =
     registerPages pages
       \<lparr>m_pages = [], m_treeWidget = [], m_applyButton = False, m_currentPage = None,
        connected = [], accepted = [], closed = 0, visible = False\<rparr>"

text \<open>The validation loop of \<^verbatim>\<open>okToClose\<close> and \<^verbatim>\<open>acceptSettings\<close>: stop at the first page that refuses.\<close>

fun allCanAccept :: "SettingsPage list \<Rightarrow> bool" where
  "allCanAccept [] = True"
| "allCanAccept (page # pages) =
     (if \<not> canAcceptSettings (m_pageSettings page) then False else allCanAccept pages)"

definition okToClose :: "SettingsDialog \<Rightarrow> bool" where
  "okToClose d = allCanAccept (m_pages d)"

fun acceptAll :: "SettingsPage list \<Rightarrow> ISettingsPage list \<Rightarrow> ISettingsPage list" where
  "acceptAll [] calls = calls"
| "acceptAll (page # pages) calls = acceptAll pages (calls @ [m_pageSettings page])"

definition acceptSettings :: "SettingsDialog \<Rightarrow> bool \<times> SettingsDialog" where
  "acceptSettings d =
     (let settingsValid = allCanAccept (m_pages d)
      in if \<not> settingsValid then (False, d)
         else (True, d\<lparr>accepted := acceptAll (m_pages d) (accepted d), m_applyButton := False\<rparr>))"

definition closeEvent :: "QCloseEvent \<Rightarrow> SettingsDialog \<Rightarrow> QCloseEvent \<times> SettingsDialog" where
  "closeEvent event d =
     (if okToClose d then (event\<lparr>isAccepted := True\<rparr>, d\<lparr>closed := Suc (closed d)\<rparr>)
      else (event\<lparr>isAccepted := False\<rparr>, d))"

text \<open>
  \<^verbatim>\<open>QWidget::close()\<close> and \<^verbatim>\<open>QWidget::show()\<close> are the toolkit's: \<^verbatim>\<open>close()\<close> sends
  the widget a close event and hides the widget when the event comes back accepted.
\<close>

definition QWidget_close :: "SettingsDialog \<Rightarrow> SettingsDialog" where
  "QWidget_close d =
     (let (event, d') = closeEvent \<lparr>isAccepted = True\<rparr> d
      in if isAccepted event then d'\<lparr>visible := False\<rparr> else d')"

definition QWidget_show :: "SettingsDialog \<Rightarrow> SettingsDialog" where
  "QWidget_show d = d\<lparr>visible := True\<rparr>"

text \<open>The three slots the constructor connects to the buttons, and the slot of a page's signal.\<close>

definition okButton_clicked :: "SettingsDialog \<Rightarrow> SettingsDialog" where
  "okButton_clicked d = QWidget_close (snd (acceptSettings d))"

definition applyButton_clicked :: "SettingsDialog \<Rightarrow> SettingsDialog" where
  "applyButton_clicked d = snd (acceptSettings d)"

definition cancelButton_clicked :: "SettingsDialog \<Rightarrow> SettingsDialog" where
  "cancelButton_clicked d = QWidget_close d"

definition settingsChanged :: "nat \<Rightarrow> SettingsDialog \<Rightarrow> SettingsDialog" where
  "settingsChanged pid d = (if pid \<in> set (connected d) then d\<lparr>m_applyButton := True\<rparr> else d)"

definition sizeHint :: "(QWidget \<Rightarrow> QSize) \<Rightarrow> QSize \<Rightarrow> SettingsDialog \<Rightarrow> QSize" where
  "sizeHint widgetSizeHint QWidget_sizeHint d =
     (case m_currentPage d of
        Some page \<Rightarrow> widgetSizeHint (m_widget page)
      | None \<Rightarrow> QWidget_sizeHint)"

text \<open>
  What can happen to a constructed dialog of this layout, as one step function. Resize and
  theme events are left out: they change sizes and style sheets only, which are not part
  of the state.
\<close>

datatype dialog_event =
    PageSettingsChanged nat | OkClicked | ApplyClicked | CancelClicked | CloseRequested
  | AcceptSettingsCalled | OkToCloseCalled | SizeHintCalled

fun handle :: "dialog_event \<Rightarrow> SettingsDialog \<Rightarrow> SettingsDialog" where
  "handle (PageSettingsChanged pid) d = settingsChanged pid d"
| "handle OkClicked d = okButton_clicked d"
| "handle ApplyClicked d = applyButton_clicked d"
| "handle CancelClicked d = cancelButton_clicked d"
| "handle CloseRequested d = QWidget_close d"
| "handle AcceptSettingsCalled d = snd (acceptSettings d)"
| "handle OkToCloseCalled d = d"
| "handle SizeHintCalled d = d"

section \<open>The toolbar layout\<close>

text \<open>
  The macOS layout (the \<^verbatim>\<open>Q_OS_MACOS\<close> branches of the source). Names that both
  layouts use carry the suffix \<open>_macos\<close> here.
\<close>

text \<open>
  Modelled from the spec: \<^verbatim>\<open>TransparentWidget\<close>, whose header and source are not among
  the files. The specification does not describe the class, so the container is taken
  from the way \<^verbatim>\<open>addPage\<close> and the activation slot use it: it holds an ordered list
  of child widgets, \<^verbatim>\<open>count()\<close> is their number, \<^verbatim>\<open>addWidget\<close> appends one, the first
  constructor argument is the initial opacity of its transparency effect and
  \<^verbatim>\<open>setOpacity\<close> sets that opacity. \<open>tw_id\<close> is the identity of the container.
\<close>

record TransparentWidget =
  tw_id :: nat
  tw_children :: "QWidget list"
  tw_opacity :: real

definition TransparentWidget_new :: "real \<Rightarrow> nat \<Rightarrow> TransparentWidget" where
  "TransparentWidget_new opacity ident = \<lparr>tw_id = ident, tw_children = [], tw_opacity = opacity\<rparr>"

definition tw_count :: "TransparentWidget \<Rightarrow> nat" where
  "tw_count w = length (tw_children w)"

definition tw_addWidget :: "QWidget \<Rightarrow> TransparentWidget \<Rightarrow> TransparentWidget" where
  "tw_addWidget c w = w\<lparr>tw_children := tw_children w @ [c]\<rparr>"

definition tw_setOpacity :: "real \<Rightarrow> TransparentWidget \<Rightarrow> TransparentWidget" where
  "tw_setOpacity opacity w = w\<lparr>tw_opacity := opacity\<rparr>"

text \<open>
  On this layout a \<^verbatim>\<open>SettingsPage\<close> stands for a whole section: its container, the
  pages of the section and the toolbar item. A toolbar item is known by its address, a
  natural number.
\<close>

record SettingsPage_macos =
  m_name_macos :: string
  m_widget_macos :: TransparentWidget
  m_pageSettings_macos :: "ISettingsPage list"
  m_description_macos :: string
  m_toolbarItem :: nat

text \<open>
  An animation is recorded by what it animates, its duration in milliseconds and its
  start and end values; how the toolkit runs it in time is not modelled. A group also
  remembers the page captured by the slot of its \<^verbatim>\<open>finished\<close> signal.
\<close>

datatype QVariant = VSize QSize | VReal real | VInt int

datatype animated = DialogProperty string | OpacityEffect nat

record QPropertyAnimation =
  anim_target :: animated
  anim_duration :: int
  anim_startValue :: QVariant
  anim_endValue :: QVariant

record QParallelAnimationGroup =
  group_animations :: "QPropertyAnimation list"
  group_page :: nat

text \<open>
  \<open>m_pages_macos\<close> is the \<^verbatim>\<open>QMap\<close> from toolbar items to pages, as the list of its
  entries in ascending key order, which is the order a loop over the map visits them in.
  It doubles as the store of the \<^verbatim>\<open>SettingsPage\<close> objects: every such object is the
  value of the entry of its own toolbar item, so a pointer to one (\<open>m_currentPage_macos\<close>,
  the page a slot captured) is the key of that entry. \<open>m_toolbar\<close> lists the items of
  the toolbar with their labels, \<open>containers\<close> counts the containers created so far,
  \<open>stopped\<close> lists the animation groups that were stopped, and \<open>resized\<close> the
  arguments of the calls of \<^verbatim>\<open>resize\<close>.
\<close>

record SettingsDialog_macos =
  m_pages_macos :: "(nat \<times> SettingsPage_macos) list"
  m_toolbar :: "(nat \<times> string) list"
  m_currentPage_macos :: "nat option"
  m_animationGroup :: "QParallelAnimationGroup option"
  m_maximumWidth :: int
  containers :: nat
  stopped :: "QParallelAnimationGroup list"
  windowTitle :: string
  minimumSize :: QSize
  maximumSize :: QSize
  resized :: "QSize list"
  accepted_macos :: "ISettingsPage list"
  closed_macos :: nat

text \<open>\<^verbatim>\<open>m_pages[k] = v\<close>: replace the value of key \<open>k\<close>, or insert the entry in key order.\<close>

fun qmap_insert :: "nat \<Rightarrow> 'v \<Rightarrow> (nat \<times> 'v) list \<Rightarrow> (nat \<times> 'v) list" where
  "qmap_insert k v [] = [(k, v)]"
| "qmap_insert k v ((k', v') # m) =
     (if k < k' then (k, v) # (k', v') # m
      else if k = k' then (k, v) # m
      else (k', v') # qmap_insert k v m)"

text \<open>
  \<^verbatim>\<open>MacToolbar::addItem\<close> belongs to the platform helper. It appends an item and
  returns its address; \<open>alloc n\<close> is the address of the item created when the toolbar
  already holds \<open>n\<close> items.
\<close>

definition MacToolbar_addItem ::
  "(nat \<Rightarrow> nat) \<Rightarrow> string \<Rightarrow> (nat \<times> string) list \<Rightarrow> nat \<times> (nat \<times> string) list" where
  "MacToolbar_addItem alloc label toolbar =
     (alloc (length toolbar), toolbar @ [(alloc (length toolbar), label)])"

text \<open>
  \<^verbatim>\<open>SettingsDialog::addPage\<close>, toolbar branch. When a page of the same section exists,
  its container and its list of pages are extended in place and no toolbar item is added.
\<close>

definition addPage_macos ::
  "(nat \<Rightarrow> nat) \<Rightarrow> ISettingsPage \<Rightarrow> SettingsDialog_macos \<Rightarrow> SettingsPage_macos \<times> SettingsDialog_macos" where
  "addPage_macos alloc page d =
     (let found = find (\<lambda>(k, currentPage). m_name_macos currentPage = page_section page)
                    (m_pages_macos d);
          (widgetContainer, d1) =
            (case found of
               Some (k, currentPage) \<Rightarrow> (m_widget_macos currentPage, d)
             | None \<Rightarrow> (TransparentWidget_new 0 (containers d), d\<lparr>containers := Suc (containers d)\<rparr>));
          widgetContainer1 =
            (if tw_count widgetContainer \<noteq> 0 then tw_addWidget SeparatorWidget widgetContainer
             else widgetContainer);
          pageWidget = PageWidget (page_id page);
          widgetContainer2 = tw_addWidget pageWidget widgetContainer1
      in case found of
           Some (k, currentPage) \<Rightarrow>
             (let settingsPage = currentPage
                    \<lparr>m_widget_macos := widgetContainer2,
                     m_pageSettings_macos := m_pageSettings_macos currentPage @ [page]\<rparr>
              in (settingsPage, d1\<lparr>m_pages_macos := qmap_insert k settingsPage (m_pages_macos d1)\<rparr>))
         | None \<Rightarrow>
             (let (item, toolbar) = MacToolbar_addItem alloc (page_section page) (m_toolbar d1);
                  settingsPage =
                    \<lparr>m_name_macos = page_section page, m_widget_macos = widgetContainer2,
                     m_pageSettings_macos = [page], m_description_macos = page_description page,
                     m_toolbarItem = item\<rparr>
              in (settingsPage, d1\<lparr>m_toolbar := toolbar\<rparr>)))"

text \<open>The constructor's loop: \<^verbatim>\<open>m_pages[settingsPage->m_toolbarItem] = settingsPage\<close> after each \<^verbatim>\<open>addPage\<close>.\<close>

fun registerPages_macos ::
  "(nat \<Rightarrow> nat) \<Rightarrow> ISettingsPage list \<Rightarrow> SettingsDialog_macos \<Rightarrow> SettingsDialog_macos" where
  "registerPages_macos alloc [] d = d"
| "registerPages_macos alloc (page # pages) d =
     (let (settingsPage, d1) = addPage_macos alloc page d
      in registerPages_macos alloc pages
           (d1\<lparr>m_pages_macos := qmap_insert (m_toolbarItem settingsPage) settingsPage (m_pages_macos d1)\<rparr>))"

text \<open>The loop that takes the largest width and height among the size hints of the containers.\<close>

fun largestHint :: "(TransparentWidget \<Rightarrow> QSize) \<Rightarrow> (nat \<times> SettingsPage_macos) list \<Rightarrow> QSize \<Rightarrow> QSize" where
  "largestHint hint [] sz = sz"
| "largestHint hint ((k, page) # pages) sz =
     largestHint hint pages
       (max (fst (hint (m_widget_macos page))) (fst sz),
        max (snd (hint (m_widget_macos page))) (snd sz))"

text \<open>The dialog before the constructor's loop over the pages.\<close>

definition initial_macos :: SettingsDialog_macos where
  "initial_macos =
     \<lparr>m_pages_macos = [], m_toolbar = [], m_currentPage_macos = None,
      m_animationGroup = None, m_maximumWidth = 0, containers = 0, stopped = [],
      windowTitle = [], minimumSize = (0, 0), maximumSize = (0, 0), resized = [],
      accepted_macos = [], closed_macos = 0\<rparr>"

text \<open>
  The constructor. \<open>hint\<close> is the size hint the toolkit reports for a container.
  \<^verbatim>\<open>m_pages.first()\<close> is the value of the smallest key; on an empty map it is outside
  the defined behaviour of \<^verbatim>\<open>QMap\<close>, which is the result \<open>None\<close>.
\<close>

definition SettingsDialog_macos_new ::
  "(nat \<Rightarrow> nat) \<Rightarrow> (TransparentWidget \<Rightarrow> QSize) \<Rightarrow> ISettingsPage list \<Rightarrow> SettingsDialog_macos option" where
  "SettingsDialog_macos_new alloc hint pages =
     (let d = registerPages_macos alloc pages initial_macos;
          sz = largestHint hint (m_pages_macos d) (300, 0);
          d1 = d\<lparr>m_maximumWidth := fst sz\<rparr>
      in case m_pages_macos d1 of
           [] \<Rightarrow> None
         | (k, first) # rest \<Rightarrow>
             (let shown = first\<lparr>m_widget_macos := tw_setOpacity 1 (m_widget_macos first)\<rparr>;
                  height = snd (hint (m_widget_macos shown))
              in Some (d1\<lparr>m_currentPage_macos := Some k,
                          m_pages_macos := qmap_insert k shown (m_pages_macos d1),
                          minimumSize := (m_maximumWidth d1, height),
                          maximumSize := (m_maximumWidth d1, height),
                          windowTitle := m_name_macos shown\<rparr>)))"

text \<open>
  The validation loops of \<^verbatim>\<open>acceptSettings\<close>: the \<^verbatim>\<open>break\<close> leaves the inner loop
  only, and \<open>settingsValid\<close> is never set back to true.
\<close>

fun sectionsCanAccept :: "ISettingsPage list \<Rightarrow> bool \<Rightarrow> bool" where
  "sectionsCanAccept [] settingsValid = settingsValid"
| "sectionsCanAccept (section # sections) settingsValid =
     (if \<not> canAcceptSettings section then False else sectionsCanAccept sections settingsValid)"

fun pagesCanAccept :: "(nat \<times> SettingsPage_macos) list \<Rightarrow> bool \<Rightarrow> bool" where
  "pagesCanAccept [] settingsValid = settingsValid"
| "pagesCanAccept ((k, page) # pages) settingsValid =
     pagesCanAccept pages (sectionsCanAccept (m_pageSettings_macos page) settingsValid)"

fun acceptSections :: "ISettingsPage list \<Rightarrow> ISettingsPage list \<Rightarrow> ISettingsPage list" where
  "acceptSections [] calls = calls"
| "acceptSections (section # sections) calls = acceptSections sections (calls @ [section])"

fun acceptAll_macos :: "(nat \<times> SettingsPage_macos) list \<Rightarrow> ISettingsPage list \<Rightarrow> ISettingsPage list" where
  "acceptAll_macos [] calls = calls"
| "acceptAll_macos ((k, page) # pages) calls =
     acceptAll_macos pages (acceptSections (m_pageSettings_macos page) calls)"

definition acceptSettings_macos :: "SettingsDialog_macos \<Rightarrow> bool \<times> SettingsDialog_macos" where
  "acceptSettings_macos d =
     (let settingsValid = pagesCanAccept (m_pages_macos d) True
      in if \<not> settingsValid then (False, d)
         else (True, d\<lparr>accepted_macos := acceptAll_macos (m_pages_macos d) (accepted_macos d)\<rparr>))"

text \<open>On this layout the loop of \<^verbatim>\<open>okToClose\<close> is compiled out.\<close>

definition okToClose_macos :: "SettingsDialog_macos \<Rightarrow> bool" where
  "okToClose_macos d = True"

definition closeEvent_macos ::
  "QCloseEvent \<Rightarrow> SettingsDialog_macos \<Rightarrow> QCloseEvent \<times> SettingsDialog_macos" where
  "closeEvent_macos event d =
     (if okToClose_macos d
      then (event\<lparr>isAccepted := True\<rparr>, d\<lparr>closed_macos := Suc (closed_macos d)\<rparr>)
      else (event\<lparr>isAccepted := False\<rparr>, d))"

text \<open>
  \<open>None\<close> in \<open>sizeHint_macos\<close> and in the slots below: a pointer that is no page of
  \<open>m_pages_macos\<close> would be followed.
\<close>

definition sizeHint_macos ::
  "(TransparentWidget \<Rightarrow> QSize) \<Rightarrow> QSize \<Rightarrow> SettingsDialog_macos \<Rightarrow> QSize option" where
  "sizeHint_macos hint QWidget_sizeHint d =
     (case m_currentPage_macos d of
        None \<Rightarrow> Some QWidget_sizeHint
      | Some current \<Rightarrow>
          (case map_of (m_pages_macos d) current of
             None \<Rightarrow> None
           | Some page \<Rightarrow> Some (hint (m_widget_macos page))))"

definition sizeAnimation :: "string \<Rightarrow> QSize \<Rightarrow> QSize \<Rightarrow> QPropertyAnimation" where
  "sizeAnimation property from to =
     \<lparr>anim_target = DialogProperty property, anim_duration = 100,
      anim_startValue = VSize from, anim_endValue = VSize to\<rparr>"

text \<open>
  The slot connected to the \<^verbatim>\<open>activated\<close> signal of the toolbar item \<open>item\<close>;
  the page it captured is the page object of that item. \<open>geom\<close> is the current size of
  a container as the toolkit reports it. The outgoing container is looked up as the source
  does, \<^verbatim>\<open>m_pages[m_currentPage->m_toolbarItem]->m_widget\<close>.
\<close>

definition toolbarItem_activated ::
  "(TransparentWidget \<Rightarrow> QSize) \<Rightarrow> (TransparentWidget \<Rightarrow> QSize) \<Rightarrow> nat \<Rightarrow>
   SettingsDialog_macos \<Rightarrow> SettingsDialog_macos option" where
  "toolbarItem_activated hint geom item d =
     (case map_of (m_pages_macos d) item of
        None \<Rightarrow> None
      | Some settingsPage \<Rightarrow>
         (case m_currentPage_macos d of
            None \<Rightarrow>
              (let shown = settingsPage
                     \<lparr>m_widget_macos := tw_setOpacity 1 (m_widget_macos settingsPage)\<rparr>
               in Some (d\<lparr>m_currentPage_macos := Some item,
                           m_pages_macos := qmap_insert item shown (m_pages_macos d),
                           resized := resized d @ [hint (m_widget_macos shown)],
                           windowTitle := m_name_macos settingsPage\<rparr>))
          | Some current \<Rightarrow>
              (case Option.bind (map_of (m_pages_macos d) current)
                      (\<lambda>currentPage. map_of (m_pages_macos d) (m_toolbarItem currentPage)) of
                 None \<Rightarrow> None
               | Some shownPage \<Rightarrow>
                  (let currentItem = m_widget_macos shownPage;
                       nextItem = m_widget_macos settingsPage
                   in if tw_id currentItem = tw_id nextItem then Some d
                      else
                        (let d1 = (case m_animationGroup d of
                                     Some running \<Rightarrow> d\<lparr>stopped := stopped d @ [running]\<rparr>
                                   | None \<Rightarrow> d);
                             minSize = (m_maximumWidth d1, snd (hint nextItem));
                             sizeAnimations =
                               map (\<lambda>property. sizeAnimation property (geom currentItem) minSize)
                                 [''size'', ''minimumSize'', ''maximumSize''];
                             outgoingAnimation =
                               \<lparr>anim_target = OpacityEffect (tw_id currentItem), anim_duration = 100,
                                anim_startValue = VReal (tw_opacity currentItem),
                                anim_endValue = VInt 0\<rparr>;
                             incomingAnimation =
                               \<lparr>anim_target = OpacityEffect (tw_id nextItem), anim_duration = 100,
                                anim_startValue = VReal (tw_opacity nextItem),
                                anim_endValue = VInt 1\<rparr>
                         in Some (d1\<lparr>m_animationGroup :=
                                       Some \<lparr>group_animations =
                                               sizeAnimations @ [outgoingAnimation, incomingAnimation],
                                             group_page = item\<rparr>,
                                     m_currentPage_macos := Some item\<rparr>))))))"

text \<open>The slot connected to the \<^verbatim>\<open>finished\<close> signal of the animation group.\<close>

definition animationGroup_finished :: "SettingsDialog_macos \<Rightarrow> SettingsDialog_macos option" where
  "animationGroup_finished d =
     (case m_animationGroup d of
        None \<Rightarrow> None
      | Some finished \<Rightarrow>
          (case map_of (m_pages_macos d) (group_page finished) of
             None \<Rightarrow> None
           | Some settingsPage \<Rightarrow>
               Some (d\<lparr>m_animationGroup := None, windowTitle := m_name_macos settingsPage\<rparr>)))"

section \<open>Example pages\<close>

definition pageLook :: ISettingsPage where
  "pageLook = \<lparr>page_id = 0, page_section = ''General'', page_category = ''Look'',
               page_description = ''General settings'', canAcceptSettings = True\<rparr>"

definition pageProxy :: ISettingsPage where
  "pageProxy = \<lparr>page_id = 1, page_section = ''Network'', page_category = ''Proxy'',
                page_description = ''Network settings'', canAcceptSettings = False\<rparr>"

definition pageFonts :: ISettingsPage where
  "pageFonts = \<lparr>page_id = 2, page_section = ''General'', page_category = ''Fonts'',
                page_description = ''General settings'', canAcceptSettings = True\<rparr>"

text \<open>A size hint that grows with the number of children, and a fixed current size.\<close>

definition exampleHint :: "TransparentWidget \<Rightarrow> QSize" where
  "exampleHint w = (100 * int (length (tw_children w)), 60)"

definition exampleGeom :: "TransparentWidget \<Rightarrow> QSize" where
  "exampleGeom w = (300, 60)"

text \<open>A size hint for the widgets of the example pages.\<close>

definition exampleWidgetHint :: "QWidget \<Rightarrow> QSize" where
  "exampleWidgetHint w = (case w of PageWidget i \<Rightarrow> (200 + int i, 100) | SeparatorWidget \<Rightarrow> (0, 1))"

section \<open>Notions used in the statements\<close>

text \<open>
  The tab that \<^verbatim>\<open>addPage\<close> adds for a page: the page's widget under the page's category.
\<close>

definition tabOf :: "ISettingsPage \<Rightarrow> QWidget \<times> string" where
  "tabOf page = (PageWidget (page_id page), page_category page)"

text \<open>
  The tree groups the pages by section: one item per section, and the tabs of an item are
  the pages of its section, in the order they were added.
\<close>

definition grouped_tree :: "ISettingsPage list \<Rightarrow> QTreeWidgetItem list \<Rightarrow> bool" where
  "grouped_tree pages tree \<longleftrightarrow>
     distinct (map item_text tree) \<and>
     set (map item_text tree) = set (map page_section pages) \<and>
     (\<forall>i<length tree. item_tabs (tree ! i) =
        map tabOf (filter (\<lambda>page. page_section page = item_text (tree ! i)) pages))"

text \<open>
  The children a container is expected to hold for the pages of one section: the page
  widgets in order, a separator between two neighbours.
\<close>

fun sectionWidgets :: "ISettingsPage list \<Rightarrow> QWidget list" where
  "sectionWidgets [] = []"
| "sectionWidgets [page] = [PageWidget (page_id page)]"
| "sectionWidgets (page # next # pages) =
     PageWidget (page_id page) # SeparatorWidget # sectionWidgets (next # pages)"

text \<open>
  The toolbar groups the pages by section. The addresses of the items are the ones handed
  out, the labels are the sections without repetition, the map holds one page object per
  item under the item's address, and each page object holds the pages of its section and
  their widgets.
\<close>

definition grouped_toolbar ::
  "(nat \<Rightarrow> nat) \<Rightarrow> ISettingsPage list \<Rightarrow> (nat \<times> string) list \<Rightarrow>
   (nat \<times> SettingsPage_macos) list \<Rightarrow> bool" where
  "grouped_toolbar alloc pages toolbar m \<longleftrightarrow>
     map fst toolbar = map alloc [0..<length toolbar] \<and>
     distinct (map snd toolbar) \<and>
     set (map snd toolbar) = set (map page_section pages) \<and>
     sorted_wrt (<) (map fst m) \<and>
     (\<lambda>(k, page). (k, m_name_macos page)) ` set m = set toolbar \<and>
     (\<forall>(k, page)\<in>set m.
        m_toolbarItem page = k \<and>
        m_pageSettings_macos page =
          filter (\<lambda>p. page_section p = m_name_macos page) pages \<and>
        tw_children (m_widget_macos page) = sectionWidgets (m_pageSettings_macos page))"

text \<open>
  The two outcomes of \<^verbatim>\<open>addPage\<close> on the toolbar layout: an existing page object that
  takes one more page, and a new page object with a new container.
\<close>

definition extendSection :: "ISettingsPage \<Rightarrow> SettingsPage_macos \<Rightarrow> SettingsPage_macos" where
  "extendSection page currentPage =
     currentPage
       \<lparr>m_widget_macos :=
          tw_addWidget (PageWidget (page_id page))
            (if tw_count (m_widget_macos currentPage) \<noteq> 0
             then tw_addWidget SeparatorWidget (m_widget_macos currentPage)
             else m_widget_macos currentPage),
        m_pageSettings_macos := m_pageSettings_macos currentPage @ [page]\<rparr>"

definition newSection :: "nat \<Rightarrow> nat \<Rightarrow> ISettingsPage \<Rightarrow> SettingsPage_macos" where
  "newSection item ident page =
     \<lparr>m_name_macos = page_section page,
      m_widget_macos = \<lparr>tw_id = ident, tw_children = [PageWidget (page_id page)], tw_opacity = 0\<rparr>,
      m_pageSettings_macos = [page], m_description_macos = page_description page,
      m_toolbarItem = item\<rparr>"

text \<open>
  The pages held by a toolbar dialog, in the order \<^verbatim>\<open>acceptSettings\<close> visits them.
\<close>

definition registered_macos :: "SettingsDialog_macos \<Rightarrow> ISettingsPage list" where
  "registered_macos d = concat (map (\<lambda>(k, page). m_pageSettings_macos page) (m_pages_macos d))"

text \<open>
  What the running animation group animates, with the end value of each animation.
\<close>

definition animationTargets :: "SettingsDialog_macos \<Rightarrow> (animated \<times> QVariant) list" where
  "animationTargets d =
     (case m_animationGroup d of
        None \<Rightarrow> []
      | Some running \<Rightarrow> map (\<lambda>a. (anim_target a, anim_endValue a)) (group_animations running))"

section \<open>Properties of the style sheet substitution\<close>

lemma replace_Nil: "pat \<noteq> [] \<Longrightarrow> QString_replace pat rep [] = []"
  by (simp add: QString_replace.simps)

lemma replace_match:
  "pat \<noteq> [] \<Longrightarrow> prefix pat s \<Longrightarrow>
   QString_replace pat rep s = rep @ QString_replace pat rep (drop (length pat) s)"
  by (subst QString_replace.simps) auto

lemma replace_skip:
  "pat \<noteq> [] \<Longrightarrow> \<not> prefix pat (c # cs) \<Longrightarrow>
   QString_replace pat rep (c # cs) = c # QString_replace pat rep cs"
  by (subst QString_replace.simps) auto

lemma replace_absent: "pat \<noteq> [] \<Longrightarrow> \<not> sublist pat s \<Longrightarrow> QString_replace pat rep s = s"
proof (induction s)
  case Nil
  then show ?case by (simp add: replace_Nil)
next
  case (Cons c cs)
  from Cons.prems have np: "\<not> prefix pat (c # cs)" and ns: "\<not> sublist pat cs"
    by (auto simp: sublist_Cons_right)
  show ?case using Cons.IH [OF Cons.prems(1) ns] np Cons.prems(1)
    by (simp add: replace_skip)
qed

lemma separated_no_prefix:
  assumes sep: "separated p rep" and q: "suffix q p" "q \<noteq> []"
  shows "\<not> prefix q (rep @ t)"
proof
  assume pq: "prefix q (rep @ t)"
  from q have lq: "last q = last p"
    by (auto simp: suffix_def)
  from q have sq: "set q \<subseteq> set p"
    by (auto simp: suffix_def)
  show False
  proof (cases "length q \<le> length rep")
    case True
    with pq have "prefix q rep"
      by (metis prefix_length_prefix prefixI)
    then have "set q \<subseteq> set rep" by (auto simp: prefix_def)
    with q(2) lq have "last p \<in> set rep" using last_in_set by fastforce
    with sep show False by (simp add: separated_def)
  next
    case False
    with pq have "prefix rep q"
      by (metis prefix_length_prefix prefixI nat_le_linear)
    then have "set rep \<subseteq> set q" by (auto simp: prefix_def)
    with sq sep show False using last_in_set by (fastforce simp: separated_def)
  qed
qed

text \<open>
  What the output starts with, the input started with: a suffix of a separated pattern
  at the head of the output was not produced by a substitution.
\<close>

lemma replace_prefix_back:
  assumes pat: "pat \<noteq> []" and sep: "separated p rep"
  shows "suffix q p \<Longrightarrow> prefix q (QString_replace pat rep s) \<Longrightarrow> prefix q s"
proof (induction s arbitrary: q)
  case Nil
  then show ?case using pat by (simp add: replace_Nil)
next
  case (Cons c cs)
  show ?case
  proof (cases "q = []")
    case True
    then show ?thesis by simp
  next
    case qne: False
    show ?thesis
    proof (cases "prefix pat (c # cs)")
      case True
      with Cons.prems(2) pat
      have "prefix q (rep @ QString_replace pat rep (drop (length pat) (c # cs)))"
        by (simp add: replace_match)
      with separated_no_prefix [OF sep Cons.prems(1) qne] show ?thesis by blast
    next
      case False
      with Cons.prems(2) pat have pq: "prefix q (c # QString_replace pat rep cs)"
        by (simp add: replace_skip)
      from qne obtain q' where q': "q = c # q'" "prefix q' (QString_replace pat rep cs)"
        using pq by (cases q) auto
      from Cons.prems(1) q'(1) have "suffix q' p"
        by (metis suffix_ConsD)
      from Cons.IH [OF this q'(2)] q'(1) show ?thesis by simp
    qed
  qed
qed

text \<open>
  An occurrence of a separated pattern in the output was an occurrence in the input, and
  it is not the pattern that was substituted.
\<close>

lemma replace_no_new_occurrence:
  assumes pat: "pat \<noteq> []" and sep: "separated p rep"
  shows "sublist p (QString_replace pat rep s) \<Longrightarrow> p \<noteq> pat \<and> sublist p s"
proof (induction s rule: length_induct)
  case (1 s)
  note IH = "1.IH" [rule_format] and occ = "1.prems"
  from sep have pne: "p \<noteq> []" by (simp add: separated_def)
  show ?case
  proof (cases s)
    case Nil
    with occ pat pne show ?thesis by (simp add: replace_Nil)
  next
    case (Cons c cs)
    show ?thesis
    proof (cases "prefix pat s")
      case True
      let ?rest = "QString_replace pat rep (drop (length pat) s)"
      from True pat have shorter: "length (drop (length pat) s) < length s"
        using Cons by (cases pat) auto
      from occ True pat have "sublist p (rep @ ?rest)"
        by (simp add: replace_match)
      then consider (inrep) "sublist p rep" | (inrest) "sublist p ?rest"
        | (across) p1 p2 where "p = p1 @ p2" "suffix p1 rep" "prefix p2 ?rest"
        by (auto simp: sublist_append)
      then show ?thesis
      proof cases
        case inrep
        then have "set p \<subseteq> set rep" by (rule set_mono_sublist)
        with pne sep show ?thesis using last_in_set by (fastforce simp: separated_def)
      next
        case inrest
        from IH [OF shorter inrest] show ?thesis
          by (meson sublist_drop sublist_order.order_trans)
      next
        case across
        show ?thesis
        proof (cases "p1 = []")
          case True
          with across have "sublist p ?rest" by auto
          from IH [OF shorter this] show ?thesis
            by (meson sublist_drop sublist_order.order_trans)
        next
          case False
          with across(2) have "last p1 = last rep" by (auto simp: suffix_def)
          with False across(1) have "last rep \<in> set p"
            by (metis Un_iff last_in_set set_append)
          with sep show ?thesis by (simp add: separated_def)
        qed
      qed
    next
      case False
      with occ pat Cons have "sublist p (c # QString_replace pat rep cs)"
        by (simp add: replace_skip)
      then consider (here) "prefix p (c # QString_replace pat rep cs)"
        | (later) "sublist p (QString_replace pat rep cs)"
        by (auto simp: sublist_Cons_right)
      then show ?thesis
      proof cases
        case here
        with False pat Cons have "prefix p (QString_replace pat rep s)"
          by (simp add: replace_skip)
        from replace_prefix_back [OF pat sep suffix_order.order_refl this]
        have "prefix p s" .
        with False show ?thesis by auto
      next
        case later
        from IH [of cs, OF _ later] Cons show ?thesis
          by (auto simp: sublist_Cons_right)
      qed
    qed
  qed
qed

lemma dark_clean:
  "\<not> sublist ''[background-colour]'' (updateStyleSheet s True)"
  "\<not> sublist ''[base-background-colour]'' (updateStyleSheet s True)"
proof -
  let ?r1 = "QString_replace ''[background-colour]'' ''background-color: #282c29;'' s"
  have sep1: "separated ''[background-colour]'' ''background-color: #282c29;''"
    and sep3: "separated ''[background-colour]'' ''background-color: #202421;''"
    and sep4: "separated ''[base-background-colour]'' ''background-color: #202421;''"
    by (simp_all add: separated_def)
  have a: "\<not> sublist ''[background-colour]'' ?r1"
    using replace_no_new_occurrence [OF _ sep1, of "''[background-colour]''" s] by auto
  show "\<not> sublist ''[background-colour]'' (updateStyleSheet s True)"
    using replace_no_new_occurrence [OF _ sep3, of "''[base-background-colour]''" ?r1] a
    by (auto simp: updateStyleSheet_def)
  show "\<not> sublist ''[base-background-colour]'' (updateStyleSheet s True)"
    using replace_no_new_occurrence [OF _ sep4, of "''[base-background-colour]''" ?r1]
    by (auto simp: updateStyleSheet_def)
qed

lemma clean_fixed_point:
  "\<not> sublist ''[background-colour]'' t \<Longrightarrow> \<not> sublist ''[base-background-colour]'' t \<Longrightarrow>
   updateStyleSheet t m = t"
  by (simp add: updateStyleSheet_def replace_absent)

lemma replace_other_head:
  "pat \<noteq> [] \<Longrightarrow> hd pat \<noteq> c \<Longrightarrow>
   QString_replace pat rep (c # cs) = c # QString_replace pat rep cs"
  by (rule replace_skip) (auto simp: prefix_def neq_Nil_conv)

lemma replace_skip_run:
  "pat \<noteq> [] \<Longrightarrow> hd pat \<notin> set a \<Longrightarrow>
   QString_replace pat rep (a @ r) = a @ QString_replace pat rep r"
  by (induction a) (simp_all add: replace_other_head)

lemma prefix_append_bracket:
  assumes a: "a \<noteq> []" and r: "r \<noteq> []" and h: "hd r \<notin> set (tl p)"
  shows "prefix p (a @ r) \<longleftrightarrow> prefix p a"
proof
  assume "prefix p a"
  then show "prefix p (a @ r)" by (rule prefix_prefix)
next
  assume "prefix p (a @ r)"
  then consider "prefix p a" | us where "p = a @ us" "prefix us r"
    by (auto simp: prefix_append)
  then show "prefix p a"
  proof cases
    case 1
    then show ?thesis .
  next
    case 2
    show ?thesis
    proof (cases "us = []")
      case True
      with 2 show ?thesis by simp
    next
      case False
      with 2(2) r have "hd us = hd r"
        by (auto simp: prefix_def neq_Nil_conv)
      moreover from 2(1) a have "tl p = tl a @ us" by (cases a) simp_all
      ultimately have "hd r \<in> set (tl p)" using False hd_in_set [of us] by simp
      with h show ?thesis by simp
    qed
  qed
qed

lemma pieces_Nil: "pieces known [] = []"
  by (simp add: pieces.simps)

lemma pieces_BackgroundColour:
  "BackgroundColour \<in> set known \<Longrightarrow> prefix ''[background-colour]'' s \<Longrightarrow>
   pieces known s = Mark BackgroundColour # pieces known (drop 19 s)"
  by (subst pieces.simps) auto

lemma pieces_BaseBackgroundColour:
  "BaseBackgroundColour \<in> set known \<Longrightarrow> prefix ''[base-background-colour]'' s \<Longrightarrow>
   pieces known s = Mark BaseBackgroundColour # pieces known (drop 24 s)"
  by (subst pieces.simps) (auto simp: prefix_def)

lemma pieces_Plain:
  "\<not> (BackgroundColour \<in> set known \<and> prefix ''[background-colour]'' (c # cs)) \<Longrightarrow>
   \<not> (BaseBackgroundColour \<in> set known \<and> prefix ''[base-background-colour]'' (c # cs)) \<Longrightarrow>
   pieces known (c # cs) = Plain c # pieces known cs"
  by (subst pieces.simps) auto

lemma textOf_pieces: "textOf (pieces known s) = s"
proof (induction s rule: length_induct)
  case (1 s)
  note IH = "1.IH" [rule_format]
  show ?case
  proof (cases s)
    case Nil
    then show ?thesis by (simp add: pieces_Nil)
  next
    case (Cons c cs)
    consider (bg) "BackgroundColour \<in> set known \<and> prefix ''[background-colour]'' s"
      | (base) "BaseBackgroundColour \<in> set known \<and> prefix ''[base-background-colour]'' s"
      | (plain) "\<not> (BackgroundColour \<in> set known \<and> prefix ''[background-colour]'' s)"
          "\<not> (BaseBackgroundColour \<in> set known \<and> prefix ''[base-background-colour]'' s)"
      by blast
    then show ?thesis
    proof cases
      case bg
      then obtain t where s: "s = ''[background-colour]'' @ t" by (auto simp: prefix_def)
      have "textOf (pieces known t) = t" by (rule IH) (simp add: s)
      with bg show ?thesis by (simp add: pieces_BackgroundColour s)
    next
      case base
      then obtain t where s: "s = ''[base-background-colour]'' @ t" by (auto simp: prefix_def)
      have "textOf (pieces known t) = t" by (rule IH) (simp add: s)
      with base show ?thesis by (simp add: pieces_BaseBackgroundColour s)
    next
      case plain
      have "textOf (pieces known cs) = cs" by (rule IH) (simp add: Cons)
      with plain show ?thesis unfolding Cons by (simp add: pieces_Plain)
    qed
  qed
qed

lemma pieces_append_bracket:
  assumes r: "r \<noteq> []" "hd r = CHR ''[''"
  shows "pieces known (a @ r) = pieces known a @ pieces known r"
proof (induction a rule: length_induct)
  case (1 a)
  note IH = "1.IH" [rule_format]
  show ?case
  proof (cases a)
    case Nil
    then show ?thesis by (simp add: pieces_Nil)
  next
    case (Cons c cs)
    then have ane: "a \<noteq> []" by simp
    have p1: "prefix ''[background-colour]'' (a @ r) \<longleftrightarrow> prefix ''[background-colour]'' a"
      using ane r by (intro prefix_append_bracket) simp_all
    have p2: "prefix ''[base-background-colour]'' (a @ r) \<longleftrightarrow>
        prefix ''[base-background-colour]'' a"
      using ane r by (intro prefix_append_bracket) simp_all
    consider (bg) "BackgroundColour \<in> set known \<and> prefix ''[background-colour]'' a"
      | (base) "BaseBackgroundColour \<in> set known \<and> prefix ''[base-background-colour]'' a"
      | (plain) "\<not> (BackgroundColour \<in> set known \<and> prefix ''[background-colour]'' a)"
          "\<not> (BaseBackgroundColour \<in> set known \<and> prefix ''[base-background-colour]'' a)"
      by blast
    then show ?thesis
    proof cases
      case bg
      then obtain t where a: "a = ''[background-colour]'' @ t" by (auto simp: prefix_def)
      have "pieces known (t @ r) = pieces known t @ pieces known r"
        by (rule IH) (simp add: a)
      moreover have "pieces known a = Mark BackgroundColour # pieces known t"
        using bg by (simp add: pieces_BackgroundColour a)
      moreover have "pieces known (a @ r) = Mark BackgroundColour # pieces known (t @ r)"
        using bg by (simp add: pieces_BackgroundColour a)
      ultimately show ?thesis by simp
    next
      case base
      then obtain t where a: "a = ''[base-background-colour]'' @ t"
        by (auto simp: prefix_def)
      have "pieces known (t @ r) = pieces known t @ pieces known r"
        by (rule IH) (simp add: a)
      moreover have "pieces known a = Mark BaseBackgroundColour # pieces known t"
        using base by (simp add: pieces_BaseBackgroundColour a)
      moreover have "pieces known (a @ r) = Mark BaseBackgroundColour # pieces known (t @ r)"
        using base by (simp add: pieces_BaseBackgroundColour a)
      ultimately show ?thesis by simp
    next
      case plain
      have "pieces known (cs @ r) = pieces known cs @ pieces known r"
        by (rule IH) (simp add: Cons)
      moreover have "pieces known a = Plain c # pieces known cs"
        using plain unfolding Cons by (rule pieces_Plain)
      moreover have "pieces known (a @ r) = Plain c # pieces known (cs @ r)"
        using plain p1 p2 unfolding Cons by (simp add: pieces_Plain)
      ultimately show ?thesis by simp
    qed
  qed
qed

lemma pieces_at_known:
  "k \<in> set known \<Longrightarrow> pieces known (placeholderText k @ b) = Mark k # pieces known b"
  by (cases k) (simp_all add: pieces_BackgroundColour pieces_BaseBackgroundColour)

lemma pieces_at_placeholder:
  "pieces allPlaceholders (placeholderText k @ b) = Mark k # pieces allPlaceholders b"
  unfolding allPlaceholders_def by (rule pieces_at_known) (cases k; simp)

lemma pieces_occurrence:
  assumes k: "k \<in> set known"
  shows "pieces known (a @ placeholderText k @ b) =
    pieces known a @ Mark k # pieces known b"
proof -
  have "placeholderText k @ b \<noteq> []" "hd (placeholderText k @ b) = CHR ''[''"
    by (cases k; simp)+
  then show ?thesis
    by (simp add: pieces_append_bracket pieces_at_known [OF k])
qed

lemma pieces_marks_known: "Mark k \<in> set (pieces known s) \<Longrightarrow> k \<in> set known"
proof (induction s rule: length_induct)
  case (1 s)
  note IH = "1.IH" [rule_format] and m = "1.prems"
  show ?case
  proof (cases s)
    case Nil
    with m show ?thesis by (simp add: pieces_Nil)
  next
    case (Cons c cs)
    consider (bg) "BackgroundColour \<in> set known \<and> prefix ''[background-colour]'' s"
      | (base) "BaseBackgroundColour \<in> set known \<and> prefix ''[base-background-colour]'' s"
      | (plain) "\<not> (BackgroundColour \<in> set known \<and> prefix ''[background-colour]'' s)"
          "\<not> (BaseBackgroundColour \<in> set known \<and> prefix ''[base-background-colour]'' s)"
      by blast
    then show ?thesis
    proof cases
      case bg
      then obtain t where s: "s = ''[background-colour]'' @ t" by (auto simp: prefix_def)
      have p: "pieces known s = Mark BackgroundColour # pieces known t"
        using bg by (simp add: pieces_BackgroundColour s)
      have "Mark k \<in> set (pieces known t) \<Longrightarrow> k \<in> set known"
        by (rule IH) (simp_all add: s)
      with m bg show ?thesis unfolding p by auto
    next
      case base
      then obtain t where s: "s = ''[base-background-colour]'' @ t"
        by (auto simp: prefix_def)
      have p: "pieces known s = Mark BaseBackgroundColour # pieces known t"
        using base by (simp add: pieces_BaseBackgroundColour s)
      have "Mark k \<in> set (pieces known t) \<Longrightarrow> k \<in> set known"
        by (rule IH) (simp_all add: s)
      with m base show ?thesis unfolding p by auto
    next
      case plain
      have p: "pieces known s = Plain c # pieces known cs"
        using plain unfolding Cons by (rule pieces_Plain)
      have "Mark k \<in> set (pieces known cs) \<Longrightarrow> k \<in> set known"
        by (rule IH) (simp_all add: Cons)
      with m show ?thesis unfolding p by auto
    qed
  qed
qed

lemma replace_pieces:
  "QString_replace (placeholderText k) rep s = substituted (\<lambda>j. rep) (pieces [k] s)"
proof (induction s rule: length_induct)
  case (1 s)
  note IH = "1.IH" [rule_format]
  have ne: "placeholderText k \<noteq> []" by (cases k) simp_all
  show ?case
  proof (cases s)
    case Nil
    with ne show ?thesis by (simp add: replace_Nil pieces_Nil)
  next
    case (Cons c cs)
    show ?thesis
    proof (cases "prefix (placeholderText k) s")
      case True
      then obtain t where s: "s = placeholderText k @ t" by (auto simp: prefix_def)
      have "QString_replace (placeholderText k) rep t = substituted (\<lambda>j. rep) (pieces [k] t)"
        using ne by (intro IH) (simp add: s)
      moreover have "QString_replace (placeholderText k) rep s =
          rep @ QString_replace (placeholderText k) rep t"
        using replace_match [OF ne True] by (simp add: s)
      moreover have "pieces [k] s = Mark k # pieces [k] t"
        unfolding s
        by (cases k) (simp_all add: pieces_BackgroundColour pieces_BaseBackgroundColour)
      ultimately show ?thesis by simp
    next
      case False
      have "QString_replace (placeholderText k) rep cs =
          substituted (\<lambda>j. rep) (pieces [k] cs)"
        by (rule IH) (simp add: Cons)
      moreover have "QString_replace (placeholderText k) rep s =
          c # QString_replace (placeholderText k) rep cs"
        using False ne unfolding Cons by (rule replace_skip [rotated])
      moreover have "pieces [k] s = Plain c # pieces [k] cs"
        using False unfolding Cons by (cases k) (simp_all add: pieces_Plain)
      ultimately show ?thesis by simp
    qed
  qed
qed

lemma replace_over_base:
  "QString_replace ''[background-colour]'' rep (''[base-background-colour]'' @ t) =
   ''[base-background-colour]'' @ QString_replace ''[background-colour]'' rep t"
proof -
  have "QString_replace ''[background-colour]'' rep (''base-background-colour]'' @ t) =
      ''base-background-colour]'' @ QString_replace ''[background-colour]'' rep t"
    by (rule replace_skip_run) simp_all
  moreover have "QString_replace ''[background-colour]'' rep
      (CHR ''['' # ''base-background-colour]'' @ t) =
      CHR ''['' # QString_replace ''[background-colour]'' rep (''base-background-colour]'' @ t)"
    by (rule replace_skip) simp_all
  ultimately show ?thesis by simp
qed

lemma update_at_BackgroundColour:
  "updateStyleSheet (''[background-colour]'' @ t) m =
   (if m then darkDeclaration BackgroundColour else []) @ updateStyleSheet t m"
proof -
  have a: "QString_replace ''[background-colour]'' rep (''[background-colour]'' @ t) =
      rep @ QString_replace ''[background-colour]'' rep t" for rep
    using replace_match [of "''[background-colour]''" "''[background-colour]'' @ t" rep]
    by simp
  have b: "QString_replace ''[base-background-colour]'' rep
      (''background-color: #282c29;'' @ u) =
      ''background-color: #282c29;'' @ QString_replace ''[base-background-colour]'' rep u"
    for rep u
    by (rule replace_skip_run) simp_all
  show ?thesis
    unfolding updateStyleSheet_def a using b by simp
qed

lemma update_at_BaseBackgroundColour:
  "updateStyleSheet (''[base-background-colour]'' @ t) m =
   (if m then darkDeclaration BaseBackgroundColour else []) @ updateStyleSheet t m"
proof -
  have b: "QString_replace ''[base-background-colour]'' rep (''[base-background-colour]'' @ u) =
      rep @ QString_replace ''[base-background-colour]'' rep u" for rep u
    using replace_match [of "''[base-background-colour]''" "''[base-background-colour]'' @ u" rep]
    by simp
  show ?thesis
    unfolding updateStyleSheet_def replace_over_base b by simp
qed

lemma update_dark_plain:
  assumes n1: "\<not> prefix ''[background-colour]'' (c # cs)"
    and n2: "\<not> prefix ''[base-background-colour]'' (c # cs)"
  shows "updateStyleSheet (c # cs) True = c # updateStyleSheet cs True"
proof -
  let ?r = "QString_replace ''[background-colour]'' ''background-color: #282c29;''"
  have r1: "?r (c # cs) = c # ?r cs"
    using n1 by (intro replace_skip) simp_all
  have sep: "separated ''[base-background-colour]'' ''background-color: #282c29;''"
    by (simp add: separated_def)
  have "\<not> prefix ''[base-background-colour]'' (c # ?r cs)"
  proof
    assume p: "prefix ''[base-background-colour]'' (c # ?r cs)"
    then have pc: "CHR ''['' = c \<and> prefix ''base-background-colour]'' (?r cs)"
      by (rule iffD1 [OF Cons_prefix_Cons])
    from pc [THEN conjunct1] have c: "c = CHR ''[''" by (rule sym)
    have "suffix ''base-background-colour]'' ''[base-background-colour]''"
      by (simp add: suffix_def)
    moreover note pc [THEN conjunct2]
    ultimately have "prefix ''base-background-colour]'' cs"
      using replace_prefix_back [OF _ sep, of "''[background-colour]''"] by blast
    with c n2 show False by simp
  qed
  then have "QString_replace ''[base-background-colour]'' ''background-color: #202421;''
      (c # ?r cs) =
      c # QString_replace ''[base-background-colour]'' ''background-color: #202421;'' (?r cs)"
    by (intro replace_skip) simp_all
  with r1 show ?thesis by (simp add: updateStyleSheet_def)
qed

lemma update_light_plain:
  "c \<noteq> CHR ''['' \<Longrightarrow> updateStyleSheet (c # cs) False = c # updateStyleSheet cs False"
  by (simp add: updateStyleSheet_def replace_other_head [OF _ not_sym])

lemma dark_pieces:
  "updateStyleSheet s True = substituted darkDeclaration (pieces allPlaceholders s)"
proof (induction s rule: length_induct)
  case (1 s)
  note IH = "1.IH" [rule_format]
  show ?case
  proof (cases s)
    case Nil
    then show ?thesis by (simp add: updateStyleSheet_def replace_Nil pieces_Nil)
  next
    case (Cons c cs)
    consider (bg) "prefix ''[background-colour]'' s"
      | (base) "prefix ''[base-background-colour]'' s"
      | (plain) "\<not> prefix ''[background-colour]'' s" "\<not> prefix ''[base-background-colour]'' s"
      by blast
    then show ?thesis
    proof cases
      case bg
      then obtain t where s: "s = ''[background-colour]'' @ t" by (auto simp: prefix_def)
      have "updateStyleSheet t True = substituted darkDeclaration (pieces allPlaceholders t)"
        by (rule IH) (simp add: s)
      moreover have "pieces allPlaceholders s = Mark BackgroundColour # pieces allPlaceholders t"
        using pieces_at_placeholder [of BackgroundColour t] by (simp add: s)
      ultimately show ?thesis
        unfolding s update_at_BackgroundColour by simp
    next
      case base
      then obtain t where s: "s = ''[base-background-colour]'' @ t"
        by (auto simp: prefix_def)
      have "updateStyleSheet t True = substituted darkDeclaration (pieces allPlaceholders t)"
        by (rule IH) (simp add: s)
      moreover have "pieces allPlaceholders s =
          Mark BaseBackgroundColour # pieces allPlaceholders t"
        using pieces_at_placeholder [of BaseBackgroundColour t] by (simp add: s)
      ultimately show ?thesis
        unfolding s update_at_BaseBackgroundColour by simp
    next
      case plain
      have "updateStyleSheet cs True = substituted darkDeclaration (pieces allPlaceholders cs)"
        by (rule IH) (simp add: Cons)
      moreover have "pieces allPlaceholders s = Plain c # pieces allPlaceholders cs"
        using plain unfolding Cons by (simp add: pieces_Plain)
      moreover have "updateStyleSheet s True = c # updateStyleSheet cs True"
        using plain unfolding Cons by (rule update_dark_plain)
      ultimately show ?thesis by simp
    qed
  qed
qed

lemma substituted_deleted_Mark:
  "substituted deleted (Mark k # ps) = substituted deleted ps"
  by (simp add: deleted_def)

lemma light_pieces:
  "Plain CHR ''['' \<notin> set (pieces allPlaceholders s) \<Longrightarrow>
   updateStyleSheet s False = substituted deleted (pieces allPlaceholders s)"
proof (induction s rule: length_induct)
  case (1 s)
  note IH = "1.IH" [rule_format] and wf = "1.prems"
  show ?case
  proof (cases s)
    case Nil
    then show ?thesis by (simp add: updateStyleSheet_def replace_Nil pieces_Nil)
  next
    case (Cons c cs)
    consider (bg) "prefix ''[background-colour]'' s"
      | (base) "prefix ''[base-background-colour]'' s"
      | (plain) "\<not> prefix ''[background-colour]'' s" "\<not> prefix ''[base-background-colour]'' s"
      by blast
    then show ?thesis
    proof cases
      case bg
      then obtain t where s: "s = ''[background-colour]'' @ t" by (auto simp: prefix_def)
      have p: "pieces allPlaceholders s = Mark BackgroundColour # pieces allPlaceholders t"
        using pieces_at_placeholder [of BackgroundColour t] by (simp add: s)
      have "updateStyleSheet t False = substituted deleted (pieces allPlaceholders t)"
        using wf unfolding p by (intro IH) (simp_all add: s)
      then show ?thesis
        unfolding p unfolding s update_at_BackgroundColour
        by (simp add: substituted_deleted_Mark del: substituted.simps(3))
    next
      case base
      then obtain t where s: "s = ''[base-background-colour]'' @ t"
        by (auto simp: prefix_def)
      have p: "pieces allPlaceholders s = Mark BaseBackgroundColour # pieces allPlaceholders t"
        using pieces_at_placeholder [of BaseBackgroundColour t] by (simp add: s)
      have "updateStyleSheet t False = substituted deleted (pieces allPlaceholders t)"
        using wf unfolding p by (intro IH) (simp_all add: s)
      then show ?thesis
        unfolding p unfolding s update_at_BaseBackgroundColour
        by (simp add: substituted_deleted_Mark del: substituted.simps(3))
    next
      case plain
      have p: "pieces allPlaceholders s = Plain c # pieces allPlaceholders cs"
        using plain unfolding Cons by (simp add: pieces_Plain)
      with wf have c: "c \<noteq> CHR ''[''" by auto
      have "updateStyleSheet cs False = substituted deleted (pieces allPlaceholders cs)"
        using wf unfolding p by (intro IH) (simp_all add: Cons)
      then show ?thesis
        unfolding p unfolding Cons by (simp add: update_light_plain c)
    qed
  qed
qed

lemma set_substituted_deleted: "set (substituted deleted ps) = {c. Plain c \<in> set ps}"
proof (induction ps)
  case Nil
  show ?case by simp
next
  case (Cons p ps)
  then show ?case by (cases p) (auto simp: deleted_def)
qed

lemma light_pieces_clean:
  assumes wf: "Plain CHR ''['' \<notin> set (pieces allPlaceholders s)"
  shows "\<not> sublist (placeholderText k) (substituted deleted (pieces allPlaceholders s))"
proof
  assume "sublist (placeholderText k) (substituted deleted (pieces allPlaceholders s))"
  then have "set (placeholderText k) \<subseteq> set (substituted deleted (pieces allPlaceholders s))"
    by (rule set_mono_sublist)
  moreover have "CHR ''['' \<in> set (placeholderText k)" by (cases k) simp_all
  ultimately show False using wf by (auto simp: set_substituted_deleted)
qed

lemma light_two_passes:
  "updateStyleSheet s False =
   substituted deleted (pieces [BaseBackgroundColour]
     (substituted deleted (pieces [BackgroundColour] s)))"
proof -
  have d: "(\<lambda>j. []) = deleted" by (simp add: fun_eq_iff deleted_def)
  show ?thesis
    using replace_pieces [of BackgroundColour "[]"] replace_pieces [of BaseBackgroundColour "[]"]
    by (simp add: updateStyleSheet_def d)
qed

text \<open>
  C8, as stated, at a light-mode input: removing the inner \<^verbatim>\<open>[background-colour]\<close>
  of \<^verbatim>\<open>[background-[background-colour]colour]\<close> joins the text around it into a
  new placeholder. The result still contains the placeholder, and a second application
  changes it.
\<close>

theorem updateStyleSheet_light_counterexample:
  "sublist ''[background-colour]''
     (updateStyleSheet ''[background-[background-colour]colour]'' False) \<and>
   updateStyleSheet (updateStyleSheet ''[background-[background-colour]colour]'' False) False
     \<noteq> updateStyleSheet ''[background-[background-colour]colour]'' False"
proof -
  have r: "updateStyleSheet ''[background-[background-colour]colour]'' False
             = ''[background-colour]''"
    by code_simp
  have r2: "updateStyleSheet ''[background-colour]'' False = ''''"
    by code_simp
  show ?thesis unfolding r r2 by simp
qed

text \<open>
  C8, amended. The cut of a string into \<open>pieces\<close> gives back the string, marks no
  placeholder but those looked for, and marks every occurrence of a placeholder looked for,
  wherever it stands. For every input string:

  \<^item> in dark mode the result of \<open>updateStyleSheet\<close> is the input with every occurrence of
    \<^verbatim>\<open>[background-colour]\<close> replaced by \<^verbatim>\<open>background-color: #282c29;\<close> and every
    occurrence of \<^verbatim>\<open>[base-background-colour]\<close> replaced by
    \<^verbatim>\<open>background-color: #202421;\<close>; it contains neither placeholder and
    \<open>updateStyleSheet\<close> maps it to itself;

  \<^item> in light mode the result is what two passes leave: the first deletes every occurrence
    of \<^verbatim>\<open>[background-colour]\<close> in the input, the second every occurrence of
    \<^verbatim>\<open>[base-background-colour]\<close> in what the first has left. When \<^verbatim>\<open>[\<close> occurs in
    the input only as the first character of a placeholder, this is the input with every
    occurrence of the two placeholders deleted, it contains neither placeholder, and
    \<open>updateStyleSheet\<close> maps it to itself. In general the result is mapped to itself
    whenever it contains neither placeholder.
\<close>

theorem updateStyleSheet_substitutes:
  "textOf (pieces known s) = s \<and>
   (Mark k \<in> set (pieces known s) \<longrightarrow> k \<in> set known) \<and>
   (k \<in> set known \<longrightarrow>
      pieces known (a @ placeholderText k @ b) = pieces known a @ Mark k # pieces known b) \<and>
   updateStyleSheet s True = substituted darkDeclaration (pieces allPlaceholders s) \<and>
   \<not> sublist ''[background-colour]'' (updateStyleSheet s True) \<and>
   \<not> sublist ''[base-background-colour]'' (updateStyleSheet s True) \<and>
   updateStyleSheet (updateStyleSheet s True) True = updateStyleSheet s True \<and>
   updateStyleSheet s False =
     substituted deleted (pieces [BaseBackgroundColour]
       (substituted deleted (pieces [BackgroundColour] s))) \<and>
   (Plain CHR ''['' \<notin> set (pieces allPlaceholders s) \<longrightarrow>
      updateStyleSheet s False = substituted deleted (pieces allPlaceholders s) \<and>
      \<not> sublist ''[background-colour]'' (updateStyleSheet s False) \<and>
      \<not> sublist ''[base-background-colour]'' (updateStyleSheet s False) \<and>
      updateStyleSheet (updateStyleSheet s False) False = updateStyleSheet s False) \<and>
   (\<not> sublist ''[background-colour]'' (updateStyleSheet s False) \<and>
    \<not> sublist ''[base-background-colour]'' (updateStyleSheet s False) \<longrightarrow>
      updateStyleSheet (updateStyleSheet s False) False = updateStyleSheet s False)"
proof -
  have c1: "textOf (pieces known s) = s"
    by (rule textOf_pieces)
  have c2: "Mark k \<in> set (pieces known s) \<longrightarrow> k \<in> set known"
    by (rule impI) (rule pieces_marks_known)
  have c3: "k \<in> set known \<longrightarrow>
      pieces known (a @ placeholderText k @ b) = pieces known a @ Mark k # pieces known b"
    by (rule impI) (rule pieces_occurrence)
  have c4: "updateStyleSheet s True = substituted darkDeclaration (pieces allPlaceholders s)"
    by (rule dark_pieces)
  have c5: "\<not> sublist ''[background-colour]'' (updateStyleSheet s True)"
    by (rule dark_clean)
  have c6: "\<not> sublist ''[base-background-colour]'' (updateStyleSheet s True)"
    by (rule dark_clean)
  have c7: "updateStyleSheet (updateStyleSheet s True) True = updateStyleSheet s True"
    using c5 c6 by (rule clean_fixed_point)
  have c8: "updateStyleSheet s False =
      substituted deleted (pieces [BaseBackgroundColour]
        (substituted deleted (pieces [BackgroundColour] s)))"
    by (rule light_two_passes)
  have c9: "Plain CHR ''['' \<notin> set (pieces allPlaceholders s) \<longrightarrow>
      updateStyleSheet s False = substituted deleted (pieces allPlaceholders s) \<and>
      \<not> sublist ''[background-colour]'' (updateStyleSheet s False) \<and>
      \<not> sublist ''[base-background-colour]'' (updateStyleSheet s False) \<and>
      updateStyleSheet (updateStyleSheet s False) False = updateStyleSheet s False"
  proof
    assume wf: "Plain CHR ''['' \<notin> set (pieces allPlaceholders s)"
    have e: "updateStyleSheet s False = substituted deleted (pieces allPlaceholders s)"
      using wf by (rule light_pieces)
    have n1: "\<not> sublist ''[background-colour]'' (updateStyleSheet s False)"
      unfolding e using light_pieces_clean [OF wf, of BackgroundColour] by simp
    have n2: "\<not> sublist ''[base-background-colour]'' (updateStyleSheet s False)"
      unfolding e using light_pieces_clean [OF wf, of BaseBackgroundColour] by simp
    have f: "updateStyleSheet (updateStyleSheet s False) False = updateStyleSheet s False"
      using n1 n2 by (rule clean_fixed_point)
    show "updateStyleSheet s False = substituted deleted (pieces allPlaceholders s) \<and>
      \<not> sublist ''[background-colour]'' (updateStyleSheet s False) \<and>
      \<not> sublist ''[base-background-colour]'' (updateStyleSheet s False) \<and>
      updateStyleSheet (updateStyleSheet s False) False = updateStyleSheet s False"
      using e n1 n2 f by (intro conjI)
  qed
  have c10: "\<not> sublist ''[background-colour]'' (updateStyleSheet s False) \<and>
      \<not> sublist ''[base-background-colour]'' (updateStyleSheet s False) \<longrightarrow>
      updateStyleSheet (updateStyleSheet s False) False = updateStyleSheet s False"
    by (rule impI) (rule clean_fixed_point, erule conjunct1, erule conjunct2)
  show ?thesis
    using c1 c2 c3 c4 c5 c6 c7 c8 c9 c10 by (intro conjI)
qed

theorem updateStyleSheet_substitutes_witness:
  "Mark BaseBackgroundColour \<in>
     set (pieces allPlaceholders ''a [background-colour] b [base-background-colour]'') \<and>
   BaseBackgroundColour \<in> set allPlaceholders \<and>
   pieces allPlaceholders (''a [background-colour] b '' @ ''[base-background-colour]'' @ '''') =
     pieces allPlaceholders ''a [background-colour] b '' @
     Mark BaseBackgroundColour # pieces allPlaceholders '''' \<and>
   Plain CHR ''['' \<notin>
     set (pieces allPlaceholders ''a [background-colour] b [base-background-colour]'') \<and>
   updateStyleSheet ''a [background-colour] b [base-background-colour]'' True =
     ''a background-color: #282c29; b background-color: #202421;'' \<and>
   updateStyleSheet ''a [background-colour] b [base-background-colour]'' False = ''a  b '' \<and>
   \<not> sublist ''[background-colour]''
     (updateStyleSheet ''a [background-colour] b [base-background-colour]'' False) \<and>
   \<not> sublist ''[base-background-colour]''
     (updateStyleSheet ''a [background-colour] b [base-background-colour]'' False) \<and>
   updateStyleSheet
     (updateStyleSheet ''a [background-colour] b [base-background-colour]'' False) False =
     updateStyleSheet ''a [background-colour] b [base-background-colour]'' False"
proof -
  let ?s = "''a [background-colour] b [base-background-colour]''"
  note t = updateStyleSheet_substitutes
    [of allPlaceholders ?s BaseBackgroundColour "''a [background-colour] b ''" "''''"]
  have h1: "Mark BaseBackgroundColour \<in> set (pieces allPlaceholders ?s)"
    by code_simp
  from t [THEN conjunct2, THEN conjunct1] h1
  have h2: "BaseBackgroundColour \<in> set allPlaceholders"
    by (rule mp)
  from t [THEN conjunct2, THEN conjunct2, THEN conjunct1] h2
  have w3: "pieces allPlaceholders
      (''a [background-colour] b '' @ placeholderText BaseBackgroundColour @ '''') =
      pieces allPlaceholders ''a [background-colour] b '' @
      Mark BaseBackgroundColour # pieces allPlaceholders ''''"
    by (rule mp)
  have pt: "placeholderText BaseBackgroundColour = ''[base-background-colour]''"
    by simp
  have h3: "Plain CHR ''['' \<notin> set (pieces allPlaceholders ?s)"
    by code_simp
  have d: "substituted darkDeclaration (pieces allPlaceholders ?s) =
      ''a background-color: #282c29; b background-color: #202421;''"
    by code_simp
  have l: "substituted deleted (pieces allPlaceholders ?s) = ''a  b ''"
    by code_simp
  note r = t [THEN conjunct2, THEN conjunct2, THEN conjunct2]
  have w5: "updateStyleSheet ?s True =
      ''a background-color: #282c29; b background-color: #202421;''"
    using r [THEN conjunct1] d by (rule trans)
  from r [THEN conjunct2, THEN conjunct2, THEN conjunct2, THEN conjunct2, THEN conjunct2,
    THEN conjunct1] h3
  have w: "updateStyleSheet ?s False = substituted deleted (pieces allPlaceholders ?s) \<and>
      \<not> sublist ''[background-colour]'' (updateStyleSheet ?s False) \<and>
      \<not> sublist ''[base-background-colour]'' (updateStyleSheet ?s False) \<and>
      updateStyleSheet (updateStyleSheet ?s False) False = updateStyleSheet ?s False"
    by (rule mp)
  have w6: "updateStyleSheet ?s False = ''a  b ''"
    using w [THEN conjunct1] l by (rule trans)
  show ?thesis
    using h1 h2 w3 [unfolded pt] h3 w5 w6 w [THEN conjunct2, THEN conjunct1]
      w [THEN conjunct2, THEN conjunct2, THEN conjunct1]
      w [THEN conjunct2, THEN conjunct2, THEN conjunct2]
    by (intro conjI)
qed

section \<open>Properties of the dialog\<close>

lemma allCanAccept_iff:
  "allCanAccept pages \<longleftrightarrow> (\<forall>page\<in>set pages. canAcceptSettings (m_pageSettings page))"
  by (induction pages) auto

lemma acceptAll_append: "acceptAll pages calls = calls @ map m_pageSettings pages"
  by (induction pages arbitrary: calls) auto

lemma addPage_page:
  "fst (addPage page d) = \<lparr>m_name = page_section page, m_widget = PageWidget (page_id page),
                            m_pageSettings = page, m_description = page_description page\<rparr>"
  by (simp add: addPage_def Let_def split: option.splits prod.splits)

lemma addPage_frame:
  "snd (addPage page d) = d\<lparr>m_treeWidget := m_treeWidget (snd (addPage page d))\<rparr>"
  by (simp add: addPage_def Let_def split: option.splits prod.splits)

lemma addPage_fields:
  "m_pages (snd (addPage page d)) = m_pages d"
  "connected (snd (addPage page d)) = connected d"
  "m_applyButton (snd (addPage page d)) = m_applyButton d"
  "accepted (snd (addPage page d)) = accepted d"
  by (simp_all add: addPage_def Let_def split: option.splits prod.splits)

lemma registerPages_m_pages:
  "map m_pageSettings (m_pages (registerPages pages d)) = map m_pageSettings (m_pages d) @ pages"
proof (induction pages arbitrary: d)
  case Nil
  then show ?case by simp
next
  case (Cons page pages)
  show ?case
    by (simp add: Cons.IH Let_def split_beta addPage_fields addPage_page)
qed

lemma registerPages_fields:
  "connected (registerPages pages d) = connected d @ map page_id pages"
  "m_applyButton (registerPages pages d) = m_applyButton d"
  "accepted (registerPages pages d) = accepted d"
  by (induction pages arbitrary: d) (simp_all add: Let_def split_beta addPage_fields)

lemma sectionsCanAccept_iff:
  "sectionsCanAccept sections v \<longleftrightarrow> v \<and> (\<forall>s\<in>set sections. canAcceptSettings s)"
  by (induction sections arbitrary: v) auto

lemma pagesCanAccept_iff:
  "pagesCanAccept pages v \<longleftrightarrow>
     v \<and> (\<forall>(k, page)\<in>set pages. \<forall>s\<in>set (m_pageSettings_macos page). canAcceptSettings s)"
  by (induction pages v rule: pagesCanAccept.induct) (auto simp: sectionsCanAccept_iff)

lemma acceptSections_append: "acceptSections sections calls = calls @ sections"
  by (induction sections arbitrary: calls) auto

lemma acceptAll_macos_append:
  "acceptAll_macos pages calls = calls @ concat (map (\<lambda>(k, page). m_pageSettings_macos page) pages)"
  by (induction pages calls rule: acceptAll_macos.induct) (auto simp: acceptSections_append)

lemma acceptSettings_result:
  "acceptSettings d =
     (okToClose d,
      if okToClose d
      then d\<lparr>accepted := accepted d @ map m_pageSettings (m_pages d), m_applyButton := False\<rparr>
      else d)"
  by (simp add: acceptSettings_def okToClose_def acceptAll_append)

lemma QWidget_close_result:
  "QWidget_close d =
     (if okToClose d then d\<lparr>closed := Suc (closed d), visible := False\<rparr> else d)"
  by (simp add: QWidget_close_def closeEvent_def)

lemma okToClose_frame [simp]:
  "okToClose (d\<lparr>accepted := a\<rparr>) = okToClose d"
  "okToClose (d\<lparr>m_applyButton := b\<rparr>) = okToClose d"
  "okToClose (d\<lparr>closed := c\<rparr>) = okToClose d"
  "okToClose (d\<lparr>visible := v\<rparr>) = okToClose d"
  by (simp_all add: okToClose_def)

lemma findSection_Some:
  "findSection s tree = Some i \<Longrightarrow> i < length tree \<and> item_text (tree ! i) = s"
  by (induction tree arbitrary: i) (auto split: if_splits)

lemma findSection_None: "findSection s tree = None \<longleftrightarrow> s \<notin> set (map item_text tree)"
  by (induction tree) auto

lemma addPage_tree_found:
  "findSection (page_section page) (m_treeWidget d) = Some i \<Longrightarrow>
   m_treeWidget (snd (addPage page d)) =
     (m_treeWidget d)[i := addTab (tabOf page) (m_treeWidget d ! i)]"
  by (simp add: addPage_def Let_def tabOf_def)

lemma addPage_tree_new:
  "findSection (page_section page) (m_treeWidget d) = None \<Longrightarrow>
   m_treeWidget (snd (addPage page d)) =
     m_treeWidget d @
       [\<lparr>item_id = length (m_treeWidget d), item_text = page_section page,
         item_toolTip = page_description page, item_tabs = [tabOf page]\<rparr>]"
  by (simp add: addPage_def Let_def tabOf_def addTopLevelItem_def addTab_def)

lemma grouped_tree_addPage:
  assumes inv: "grouped_tree pages (m_treeWidget d)"
  shows "grouped_tree (pages @ [page]) (m_treeWidget (snd (addPage page d)))"
proof (cases "findSection (page_section page) (m_treeWidget d)")
  case None
  let ?tree = "m_treeWidget d"
  from None have fresh: "page_section page \<notin> set (map item_text ?tree)"
    by (simp add: findSection_None)
  with inv have "page_section page \<notin> set (map page_section pages)"
    by (simp add: grouped_tree_def)
  then have nopage: "\<forall>q\<in>set pages. page_section q \<noteq> page_section page"
    by (metis image_eqI set_map)
  then have empty: "filter (\<lambda>q. page_section q = page_section page) pages = []"
    by (auto simp: filter_empty_conv)
  have old: "\<forall>i<length ?tree. item_text (?tree ! i) \<noteq> page_section page"
    using fresh by (metis length_map nth_map nth_mem)
  show ?thesis
    unfolding addPage_tree_new [OF None] grouped_tree_def
    using inv fresh empty old
    by (auto simp: grouped_tree_def nth_append less_Suc_eq)
next
  case (Some i)
  let ?tree = "m_treeWidget d"
  from findSection_Some [OF Some] have i: "i < length ?tree"
    and sec: "item_text (?tree ! i) = page_section page" by auto
  have texts: "map item_text (?tree[i := addTab (tabOf page) (?tree ! i)]) = map item_text ?tree"
    by (simp add: map_update addTab_def list_update_same_conv i)
  from inv have dist: "distinct (map item_text ?tree)" by (simp add: grouped_tree_def)
  have other: "item_text (?tree ! j) \<noteq> page_section page" if "j < length ?tree" "j \<noteq> i" for j
  proof
    assume "item_text (?tree ! j) = page_section page"
    with sec have "map item_text ?tree ! j = map item_text ?tree ! i"
      using that(1) i by simp
    with nth_eq_iff_index_eq [OF dist, of j i] that i show False
      by simp
  qed
  from i sec have insec: "page_section page \<in> set (map item_text ?tree)"
    by (metis length_map nth_map nth_mem)
  show ?thesis
    unfolding addPage_tree_found [OF Some] grouped_tree_def texts
    using inv i sec other insec
    by (auto simp: grouped_tree_def nth_list_update addTab_def)
qed

lemma grouped_tree_registerPages:
  "grouped_tree seen (m_treeWidget d) \<Longrightarrow>
   grouped_tree (seen @ pages) (m_treeWidget (registerPages pages d))"
proof (induction pages arbitrary: d seen)
  case Nil
  then show ?case by simp
next
  case (Cons page pages)
  let ?d1 = "d\<lparr>connected := connected d @ [page_id page]\<rparr>"
  from Cons.prems have "grouped_tree seen (m_treeWidget ?d1)" by simp
  from grouped_tree_addPage [OF this, of page]
  have "grouped_tree (seen @ [page])
          (m_treeWidget ((snd (addPage page ?d1))\<lparr>m_pages := m_pages (snd (addPage page ?d1)) @ [fst (addPage page ?d1)]\<rparr>))"
    by simp
  from Cons.IH [OF this] show ?case
    by (simp add: Let_def split_beta)
qed

lemma grouped_tree_new: "grouped_tree pages (m_treeWidget (SettingsDialog_new pages))"
  using grouped_tree_registerPages [of "[]" _ pages]
  by (simp add: SettingsDialog_new_def grouped_tree_def)

lemma sectionWidgets_snoc:
  "sectionWidgets (pages @ [page]) =
     sectionWidgets pages @ (if pages = [] then [] else [SeparatorWidget]) @ [PageWidget (page_id page)]"
  by (induction pages rule: sectionWidgets.induct) auto

lemma sectionWidgets_Nil [simp]: "sectionWidgets pages = [] \<longleftrightarrow> pages = []"
  by (cases pages rule: sectionWidgets.cases) auto

lemma qmap_insert_keys: "fst ` set (qmap_insert k v m) = insert k (fst ` set m)"
proof (induction m)
  case Nil
  then show ?case by simp
next
  case (Cons e m)
  obtain k' v' where e: "e = (k', v')" by (cases e)
  show ?case
    by (simp add: e Cons.IH insert_commute)
qed

lemma qmap_insert_sorted:
  "sorted_wrt (<) (map fst m) \<Longrightarrow> sorted_wrt (<) (map fst (qmap_insert k v m))"
proof (induction m)
  case Nil
  then show ?case by simp
next
  case (Cons e m)
  obtain k' v' where e: "e = (k', v')" by (cases e)
  from Cons.prems have tl: "sorted_wrt (<) (map fst m)" and hd: "\<forall>x\<in>fst ` set m. k' < x"
    by (auto simp: e)
  show ?case
  proof (cases "k < k'")
    case True
    with Cons.prems e show ?thesis by auto
  next
    case False
    show ?thesis
    proof (cases "k = k'")
      case True
      with Cons.prems e show ?thesis by auto
    next
      case ne: False
      with False have "k' < k" by simp
      with hd have "\<forall>x\<in>fst ` set (qmap_insert k v m). k' < x"
        by (simp add: qmap_insert_keys)
      with Cons.IH [OF tl] False ne e show ?thesis by auto
    qed
  qed
qed

lemma qmap_insert_set:
  "sorted_wrt (<) (map fst m) \<Longrightarrow>
   set (qmap_insert k v m) = insert (k, v) {e \<in> set m. fst e \<noteq> k}"
proof (induction m)
  case Nil
  then show ?case by simp
next
  case (Cons e m)
  obtain k' v' where e: "e = (k', v')" by (cases e)
  from Cons.prems have tl: "sorted_wrt (<) (map fst m)" and hd: "\<forall>x\<in>set m. k' < fst x"
    by (auto simp: e)
  show ?case
  proof (cases "k < k'")
    case True
    with hd have "\<forall>x\<in>set m. fst x \<noteq> k" by auto
    with True e show ?thesis by auto
  next
    case False
    show ?thesis
    proof (cases "k = k'")
      case True
      with hd have "\<forall>x\<in>set m. fst x \<noteq> k" by auto
      with True e show ?thesis by auto
    next
      case ne: False
      with Cons.IH [OF tl] False e show ?thesis by auto
    qed
  qed
qed

lemma qmap_insert_idem: "qmap_insert k v (qmap_insert k v m) = qmap_insert k v m"
  by (induction m) auto

lemma map_of_qmap_insert: "map_of (qmap_insert k v m) = (map_of m)(k \<mapsto> v)"
  by (induction m) (auto simp: fun_eq_iff)

lemma sorted_keys_unique:
  fixes m :: "(nat \<times> 'v) list"
  shows "sorted_wrt (<) (map fst m) \<Longrightarrow> (k, a) \<in> set m \<Longrightarrow> (k, b) \<in> set m \<Longrightarrow> a = b"
proof -
  assume s: "sorted_wrt (<) (map fst m)" and a: "(k, a) \<in> set m" and b: "(k, b) \<in> set m"
  from s have "distinct (map fst m)"
    by (rule strict_sorted_iff [THEN iffD1, THEN conjunct2])
  from eq_key_imp_eq_value [OF this a b] show ?thesis .
qed

lemma addPage_macos_found:
  "find (\<lambda>(k, currentPage). m_name_macos currentPage = page_section page) (m_pages_macos d)
     = Some (k, currentPage) \<Longrightarrow>
   addPage_macos alloc page d =
     (extendSection page currentPage,
      d\<lparr>m_pages_macos := qmap_insert k (extendSection page currentPage) (m_pages_macos d)\<rparr>)"
  by (simp add: addPage_macos_def Let_def extendSection_def)

lemma addPage_macos_new:
  "find (\<lambda>(k, currentPage). m_name_macos currentPage = page_section page) (m_pages_macos d)
     = None \<Longrightarrow>
   addPage_macos alloc page d =
     (newSection (alloc (length (m_toolbar d))) (containers d) page,
      d\<lparr>containers := Suc (containers d),
        m_toolbar := m_toolbar d @ [(alloc (length (m_toolbar d)), page_section page)]\<rparr>)"
  by (simp add: addPage_macos_def Let_def newSection_def MacToolbar_addItem_def
      TransparentWidget_new_def tw_count_def tw_addWidget_def)

lemma extendSection_fields:
  "m_name_macos (extendSection page cp) = m_name_macos cp"
  "m_toolbarItem (extendSection page cp) = m_toolbarItem cp"
  "m_pageSettings_macos (extendSection page cp) = m_pageSettings_macos cp @ [page]"
  "tw_children (m_widget_macos (extendSection page cp)) =
     tw_children (m_widget_macos cp) @
       (if tw_children (m_widget_macos cp) = [] then [] else [SeparatorWidget]) @
       [PageWidget (page_id page)]"
  "tw_id (m_widget_macos (extendSection page cp)) = tw_id (m_widget_macos cp)"
  by (simp_all add: extendSection_def tw_addWidget_def tw_count_def)

lemma grouped_name_key:
  assumes inv: "grouped_toolbar alloc pages toolbar m"
    and a: "(k1, p1) \<in> set m" and b: "(k2, p2) \<in> set m"
    and eq: "m_name_macos p1 = m_name_macos p2"
  shows "k1 = k2"
proof -
  from inv have img: "(\<lambda>(k, page). (k, m_name_macos page)) ` set m = set toolbar"
    and dist: "distinct (map snd toolbar)"
    by (simp_all add: grouped_toolbar_def)
  from a img have ta: "(k1, m_name_macos p1) \<in> set toolbar" by force
  from b img eq have tb: "(k2, m_name_macos p1) \<in> set toolbar" by force
  from dist have "inj_on snd (set toolbar)" by (simp add: distinct_map)
  from inj_onD [OF this _ ta tb] show ?thesis by simp
qed

lemma grouped_keys:
  assumes inv: "grouped_toolbar alloc pages toolbar m"
  shows "fst ` set m = alloc ` {0..<length toolbar}"
proof -
  from inv have img: "(\<lambda>(k, page). (k, m_name_macos page)) ` set m = set toolbar"
    and keys: "map fst toolbar = map alloc [0..<length toolbar]"
    by (simp_all add: grouped_toolbar_def)
  have "fst ` set m = fst ` ((\<lambda>(k, page). (k, m_name_macos page)) ` set m)"
    by (simp add: image_image case_prod_beta)
  also have "\<dots> = set (map fst toolbar)" by (simp add: img)
  also have "\<dots> = alloc ` {0..<length toolbar}" by (simp add: keys)
  finally show ?thesis .
qed

lemma grouped_names:
  assumes inv: "grouped_toolbar alloc pages toolbar m"
  shows "(\<lambda>(k, page). m_name_macos page) ` set m = set (map page_section pages)"
proof -
  from inv have img: "(\<lambda>(k, page). (k, m_name_macos page)) ` set m = set toolbar"
    and secs: "set (map snd toolbar) = set (map page_section pages)"
    by (simp_all add: grouped_toolbar_def)
  have "(\<lambda>(k, page). m_name_macos page) ` set m
          = snd ` ((\<lambda>(k, page). (k, m_name_macos page)) ` set m)"
    by (simp add: image_image case_prod_beta)
  also have "\<dots> = set (map snd toolbar)" by (simp add: img)
  finally show ?thesis using secs by simp
qed

lemma grouped_toolbar_found:
  assumes inv: "grouped_toolbar alloc pages toolbar m"
    and mem: "(k, cp) \<in> set m" and name: "m_name_macos cp = page_section page"
  shows "grouped_toolbar alloc (pages @ [page]) toolbar (qmap_insert k (extendSection page cp) m)"
proof -
  let ?cp = "extendSection page cp"
  from inv have sorted: "sorted_wrt (<) (map fst m)"
    and img: "(\<lambda>(k, page). (k, m_name_macos page)) ` set m = set toolbar"
    and each: "\<forall>(k, page)\<in>set m.
        m_toolbarItem page = k \<and>
        m_pageSettings_macos page = filter (\<lambda>p. page_section p = m_name_macos page) pages \<and>
        tw_children (m_widget_macos page) = sectionWidgets (m_pageSettings_macos page)"
    by (simp_all add: grouped_toolbar_def)
  have set': "set (qmap_insert k ?cp m) = insert (k, ?cp) {e \<in> set m. fst e \<noteq> k}"
    by (rule qmap_insert_set [OF sorted])
  have uniq: "b = cp" if "(k, b) \<in> set m" for b
    using sorted_keys_unique [OF sorted that mem] .
  have c3: "set (map snd toolbar) = set (map page_section (pages @ [page]))"
  proof -
    from mem name have "page_section page \<in> (\<lambda>(k, page). m_name_macos page) ` set m"
      by (metis (mono_tags, lifting) image_eqI old.prod.case)
    with grouped_names [OF inv] have "page_section page \<in> set (map page_section pages)"
      by simp
    with inv show ?thesis by (auto simp: grouped_toolbar_def)
  qed
  have c5: "(\<lambda>(k, page). (k, m_name_macos page)) ` set (qmap_insert k ?cp m) = set toolbar"
  proof -
    let ?g = "\<lambda>(k, page). (k, m_name_macos page)"
    have split: "set m = insert (k, cp) {e \<in> set m. fst e \<noteq> k}"
    proof (rule set_eqI)
      fix e :: "nat \<times> SettingsPage_macos"
      obtain a b where e: "e = (a, b)" by (cases e)
      show "e \<in> set m \<longleftrightarrow> e \<in> insert (k, cp) {e \<in> set m. fst e \<noteq> k}"
        unfolding e using mem uniq [of b] by (cases "a = k") (simp_all, blast+)
    qed
    have "?g ` set m = ?g ` insert (k, cp) {e \<in> set m. fst e \<noteq> k}"
      by (subst split) (rule refl)
    also have "\<dots> = insert (k, m_name_macos cp) (?g ` {e \<in> set m. fst e \<noteq> k})"
      by simp
    finally have "set toolbar = insert (k, m_name_macos cp) (?g ` {e \<in> set m. fst e \<noteq> k})"
      using img by simp
    then show ?thesis
      by (simp add: set' extendSection_fields)
  qed
  have c6: "\<forall>(k', p)\<in>set (qmap_insert k ?cp m).
        m_toolbarItem p = k' \<and>
        m_pageSettings_macos p = filter (\<lambda>q. page_section q = m_name_macos p) (pages @ [page]) \<and>
        tw_children (m_widget_macos p) = sectionWidgets (m_pageSettings_macos p)"
  proof (clarify)
    fix k' p assume "(k', p) \<in> set (qmap_insert k ?cp m)"
    then consider (new) "k' = k" "p = ?cp" | (old) "(k', p) \<in> set m" "k' \<noteq> k"
      by (auto simp: set')
    then show "m_toolbarItem p = k' \<and>
        m_pageSettings_macos p = filter (\<lambda>q. page_section q = m_name_macos p) (pages @ [page]) \<and>
        tw_children (m_widget_macos p) = sectionWidgets (m_pageSettings_macos p)"
    proof cases
      case new
      from each mem have cp: "m_toolbarItem cp = k"
        "m_pageSettings_macos cp = filter (\<lambda>p. page_section p = m_name_macos cp) pages"
        "tw_children (m_widget_macos cp) = sectionWidgets (m_pageSettings_macos cp)"
        by auto
      show ?thesis
        unfolding new extendSection_fields sectionWidgets_snoc
        using cp name by simp
    next
      case old
      from each old(1) have p: "m_toolbarItem p = k'"
        "m_pageSettings_macos p = filter (\<lambda>q. page_section q = m_name_macos p) pages"
        "tw_children (m_widget_macos p) = sectionWidgets (m_pageSettings_macos p)"
        by auto
      have "m_name_macos p \<noteq> page_section page"
        using grouped_name_key [OF inv old(1) mem] old(2) name by auto
      with p show ?thesis by auto
    qed
  qed
  from inv have c1: "map fst toolbar = map alloc [0..<length toolbar]"
    and c2: "distinct (map snd toolbar)"
    by (simp_all add: grouped_toolbar_def)
  note c4 = qmap_insert_sorted [OF sorted, of k ?cp]
  show ?thesis
    unfolding grouped_toolbar_def using c1 c2 c3 c4 c5 c6 by (intro conjI)
qed

lemma grouped_toolbar_new:
  assumes inv: "grouped_toolbar alloc pages toolbar m" and inj: "inj alloc"
    and none: "\<forall>(k, cp)\<in>set m. m_name_macos cp \<noteq> page_section page"
  shows "grouped_toolbar alloc (pages @ [page])
           (toolbar @ [(alloc (length toolbar), page_section page)])
           (qmap_insert (alloc (length toolbar))
              (newSection (alloc (length toolbar)) ident page) m)"
proof -
  let ?k = "alloc (length toolbar)"
  let ?sp = "newSection ?k ident page"
  let ?g = "\<lambda>(k, page). (k, m_name_macos page)"
  from inv have sorted: "sorted_wrt (<) (map fst m)"
    and img: "?g ` set m = set toolbar"
    and keys: "map fst toolbar = map alloc [0..<length toolbar]"
    and dist: "distinct (map snd toolbar)"
    and secs: "set (map snd toolbar) = set (map page_section pages)"
    and each: "\<forall>(k, page)\<in>set m.
        m_toolbarItem page = k \<and>
        m_pageSettings_macos page = filter (\<lambda>p. page_section p = m_name_macos page) pages \<and>
        tw_children (m_widget_macos page) = sectionWidgets (m_pageSettings_macos page)"
    by (simp_all add: grouped_toolbar_def)
  have fresh: "?k \<notin> fst ` set m"
  proof
    assume "?k \<in> fst ` set m"
    then obtain i where i: "i < length toolbar" "alloc (length toolbar) = alloc i"
      unfolding grouped_keys [OF inv] by auto
    from injD [OF inj i(2)] i(1) show False by simp
  qed
  then have "{e \<in> set m. fst e \<noteq> ?k} = set m"
    by (auto simp: image_iff)
  with qmap_insert_set [OF sorted, of ?k ?sp]
  have set': "set (qmap_insert ?k ?sp m) = insert (?k, ?sp) (set m)"
    by simp
  have notin: "page_section page \<notin> set (map page_section pages)"
  proof -
    from none have "page_section page \<notin> (\<lambda>(k, page). m_name_macos page) ` set m"
      by (auto simp: image_iff)
    with grouped_names [OF inv] show ?thesis by simp
  qed
  then have "\<forall>q\<in>set pages. page_section q \<noteq> page_section page"
    by (metis image_eqI list.set_map)
  then have nofilter: "filter (\<lambda>q. page_section q = page_section page) pages = []"
    by (simp add: filter_empty_conv)
  have c1: "map fst (toolbar @ [(?k, page_section page)]) =
      map alloc [0..<length (toolbar @ [(?k, page_section page)])]"
    using keys by simp
  have c2: "distinct (map snd (toolbar @ [(?k, page_section page)]))"
    using dist notin secs by simp
  have c3: "set (map snd (toolbar @ [(?k, page_section page)])) =
      set (map page_section (pages @ [page]))"
    using secs by simp
  note c4 = qmap_insert_sorted [OF sorted, of ?k ?sp]
  have c5: "?g ` set (qmap_insert ?k ?sp m) = set (toolbar @ [(?k, page_section page)])"
    unfolding set' using img by (simp add: newSection_def)
  have c6: "\<forall>(k', p)\<in>set (qmap_insert ?k ?sp m).
        m_toolbarItem p = k' \<and>
        m_pageSettings_macos p = filter (\<lambda>q. page_section q = m_name_macos p) (pages @ [page]) \<and>
        tw_children (m_widget_macos p) = sectionWidgets (m_pageSettings_macos p)"
  proof (clarify)
    fix k' p assume "(k', p) \<in> set (qmap_insert ?k ?sp m)"
    then consider (new) "k' = ?k" "p = ?sp" | (old) "(k', p) \<in> set m"
      unfolding set' by blast
    then show "m_toolbarItem p = k' \<and>
        m_pageSettings_macos p = filter (\<lambda>q. page_section q = m_name_macos p) (pages @ [page]) \<and>
        tw_children (m_widget_macos p) = sectionWidgets (m_pageSettings_macos p)"
    proof cases
      case new
      show ?thesis
        unfolding new using nofilter by (simp add: newSection_def)
    next
      case old
      from each old have p: "m_toolbarItem p = k'"
        "m_pageSettings_macos p = filter (\<lambda>q. page_section q = m_name_macos p) pages"
        "tw_children (m_widget_macos p) = sectionWidgets (m_pageSettings_macos p)"
        by blast+
      from none old have "m_name_macos p \<noteq> page_section page" by blast
      with p show ?thesis by simp
    qed
  qed
  show ?thesis
    unfolding grouped_toolbar_def using c1 c2 c3 c4 c5 c6 by (intro conjI)
qed

lemma grouped_toolbar_update:
  assumes inv: "grouped_toolbar alloc pages toolbar m"
    and mem: "(k, cp) \<in> set m"
    and same: "m_name_macos cp' = m_name_macos cp" "m_toolbarItem cp' = m_toolbarItem cp"
      "m_pageSettings_macos cp' = m_pageSettings_macos cp"
      "tw_children (m_widget_macos cp') = tw_children (m_widget_macos cp)"
  shows "grouped_toolbar alloc pages toolbar (qmap_insert k cp' m)"
proof -
  let ?g = "\<lambda>(k, page). (k, m_name_macos page)"
  from inv have sorted: "sorted_wrt (<) (map fst m)"
    and img: "?g ` set m = set toolbar"
    and c1: "map fst toolbar = map alloc [0..<length toolbar]"
    and c2: "distinct (map snd toolbar)"
    and c3: "set (map snd toolbar) = set (map page_section pages)"
    and each: "\<forall>(k, page)\<in>set m.
        m_toolbarItem page = k \<and>
        m_pageSettings_macos page = filter (\<lambda>p. page_section p = m_name_macos page) pages \<and>
        tw_children (m_widget_macos page) = sectionWidgets (m_pageSettings_macos page)"
    by (simp_all add: grouped_toolbar_def)
  have set': "set (qmap_insert k cp' m) = insert (k, cp') {e \<in> set m. fst e \<noteq> k}"
    by (rule qmap_insert_set [OF sorted])
  have uniq: "b = cp" if "(k, b) \<in> set m" for b
    using sorted_keys_unique [OF sorted that mem] .
  have split: "set m = insert (k, cp) {e \<in> set m. fst e \<noteq> k}"
  proof (rule set_eqI)
    fix e :: "nat \<times> SettingsPage_macos"
    obtain a b where e: "e = (a, b)" by (cases e)
    show "e \<in> set m \<longleftrightarrow> e \<in> insert (k, cp) {e \<in> set m. fst e \<noteq> k}"
      unfolding e using mem uniq [of b] by (cases "a = k") (simp_all, blast+)
  qed
  have "?g ` set m = ?g ` insert (k, cp) {e \<in> set m. fst e \<noteq> k}"
    by (subst split) (rule refl)
  also have "\<dots> = insert (k, m_name_macos cp) (?g ` {e \<in> set m. fst e \<noteq> k})"
    by simp
  finally have "set toolbar = insert (k, m_name_macos cp) (?g ` {e \<in> set m. fst e \<noteq> k})"
    using img by simp
  then have c5: "?g ` set (qmap_insert k cp' m) = set toolbar"
    by (simp add: set' same)
  note c4 = qmap_insert_sorted [OF sorted, of k cp']
  have c6: "\<forall>(k', p)\<in>set (qmap_insert k cp' m).
        m_toolbarItem p = k' \<and>
        m_pageSettings_macos p = filter (\<lambda>q. page_section q = m_name_macos p) pages \<and>
        tw_children (m_widget_macos p) = sectionWidgets (m_pageSettings_macos p)"
  proof (clarify)
    fix k' p assume "(k', p) \<in> set (qmap_insert k cp' m)"
    then consider (new) "k' = k" "p = cp'" | (old) "(k', p) \<in> set m"
      unfolding set' by blast
    then show "m_toolbarItem p = k' \<and>
        m_pageSettings_macos p = filter (\<lambda>q. page_section q = m_name_macos p) pages \<and>
        tw_children (m_widget_macos p) = sectionWidgets (m_pageSettings_macos p)"
    proof cases
      case new
      from each mem have "m_toolbarItem cp = k"
        "m_pageSettings_macos cp = filter (\<lambda>p. page_section p = m_name_macos cp) pages"
        "tw_children (m_widget_macos cp) = sectionWidgets (m_pageSettings_macos cp)"
        by blast+
      then show ?thesis unfolding new same by simp
    next
      case old
      with each show ?thesis by blast
    qed
  qed
  show ?thesis
    unfolding grouped_toolbar_def using c1 c2 c3 c4 c5 c6 by (intro conjI)
qed

lemma find_SomeD: "find P xs = Some x \<Longrightarrow> x \<in> set xs \<and> P x"
  by (induction xs) (auto split: if_splits)

lemma find_NoneD: "find P xs = None \<Longrightarrow> \<forall>x\<in>set xs. \<not> P x"
  by (induction xs) (auto split: if_splits)

lemma grouped_toolbar_addPage:
  assumes inj: "inj alloc" and inv: "grouped_toolbar alloc pages (m_toolbar d) (m_pages_macos d)"
  shows "grouped_toolbar alloc (pages @ [page])
           (m_toolbar (snd (addPage_macos alloc page d)))
           (qmap_insert (m_toolbarItem (fst (addPage_macos alloc page d)))
              (fst (addPage_macos alloc page d))
              (m_pages_macos (snd (addPage_macos alloc page d))))"
proof (cases "find (\<lambda>(k, currentPage). m_name_macos currentPage = page_section page) (m_pages_macos d)")
  case None
  from find_NoneD [OF None]
  have none: "\<forall>(k, cp)\<in>set (m_pages_macos d). m_name_macos cp \<noteq> page_section page"
    by blast
  show ?thesis
    unfolding addPage_macos_new [OF None]
    using grouped_toolbar_new [OF inv inj none, of "containers d"]
    by (simp add: newSection_def)
next
  case (Some e)
  obtain k cp where e: "e = (k, cp)" by (cases e)
  from find_SomeD [OF Some] have mem: "(k, cp) \<in> set (m_pages_macos d)"
    and name: "m_name_macos cp = page_section page"
    by (simp_all add: e)
  from inv mem have key: "m_toolbarItem cp = k"
    unfolding grouped_toolbar_def by blast
  show ?thesis
    unfolding addPage_macos_found [OF Some [unfolded e]]
    using grouped_toolbar_found [OF inv mem name]
    by (simp add: extendSection_fields key qmap_insert_idem)
qed

lemma grouped_toolbar_registerPages:
  "inj alloc \<Longrightarrow> grouped_toolbar alloc seen (m_toolbar d) (m_pages_macos d) \<Longrightarrow>
   grouped_toolbar alloc (seen @ pages)
     (m_toolbar (registerPages_macos alloc pages d))
     (m_pages_macos (registerPages_macos alloc pages d))"
proof (induction pages arbitrary: d seen)
  case Nil
  then show ?case by simp
next
  case (Cons page pages)
  let ?r = "addPage_macos alloc page d"
  let ?d = "(snd ?r)\<lparr>m_pages_macos :=
              qmap_insert (m_toolbarItem (fst ?r)) (fst ?r) (m_pages_macos (snd ?r))\<rparr>"
  from grouped_toolbar_addPage [OF Cons.prems, of page]
  have "grouped_toolbar alloc (seen @ [page]) (m_toolbar ?d) (m_pages_macos ?d)"
    by simp
  from Cons.IH [OF Cons.prems(1) this] show ?case
    by (simp add: split_beta)
qed

lemma qmap_insert_not_Nil: "qmap_insert k v m \<noteq> []"
  by (cases m) (auto split: if_splits)

lemma registerPages_macos_not_Nil:
  "m_pages_macos d \<noteq> [] \<or> pages \<noteq> [] \<Longrightarrow>
   m_pages_macos (registerPages_macos alloc pages d) \<noteq> []"
proof (induction pages arbitrary: d)
  case Nil
  then show ?case by simp
next
  case (Cons page pages)
  show ?case
    by (simp add: split_beta Cons.IH qmap_insert_not_Nil)
qed

lemma SettingsDialog_macos_new_Some:
  "pages \<noteq> [] \<Longrightarrow> \<exists>d. SettingsDialog_macos_new alloc hint pages = Some d"
proof -
  assume "pages \<noteq> []"
  then have "m_pages_macos (registerPages_macos alloc pages initial_macos) \<noteq> []"
    by (simp add: registerPages_macos_not_Nil)
  then show ?thesis
    by (auto simp: SettingsDialog_macos_new_def Let_def initial_macos_def
        split: list.splits)
qed

lemma SettingsDialog_macos_new_None:
  "SettingsDialog_macos_new alloc hint pages = None \<Longrightarrow> pages = []"
  using SettingsDialog_macos_new_Some [of pages alloc hint] by (cases pages) auto

lemma grouped_toolbar_constructed:
  assumes inj: "inj alloc" and new: "SettingsDialog_macos_new alloc hint pages = Some d"
  shows "grouped_toolbar alloc pages (m_toolbar d) (m_pages_macos d)"
proof -
  let ?r = "registerPages_macos alloc pages initial_macos"
  have "grouped_toolbar alloc [] (m_toolbar initial_macos) (m_pages_macos initial_macos)"
    by (simp add: grouped_toolbar_def initial_macos_def)
  from grouped_toolbar_registerPages [OF inj this, of pages]
  have inv: "grouped_toolbar alloc pages (m_toolbar ?r) (m_pages_macos ?r)"
    by simp
  from new obtain k first rest where m: "m_pages_macos ?r = (k, first) # rest"
    by (auto simp: SettingsDialog_macos_new_def Let_def initial_macos_def
        split: list.splits)
  let ?shown = "first\<lparr>m_widget_macos := tw_setOpacity 1 (m_widget_macos first)\<rparr>"
  from new m have d: "m_toolbar d = m_toolbar ?r"
    "m_pages_macos d = qmap_insert k ?shown (m_pages_macos ?r)"
    by (auto simp: SettingsDialog_macos_new_def Let_def initial_macos_def)
  have "(k, first) \<in> set (m_pages_macos ?r)" by (simp add: m)
  from grouped_toolbar_update [OF inv this, of ?shown] show ?thesis
    unfolding d by (simp add: tw_setOpacity_def)
qed

lemma mset_concat_filter:
  "distinct ns \<Longrightarrow>
   mset (concat (map (\<lambda>n. filter (\<lambda>p. f p = n) ps) ns)) = filter_mset (\<lambda>p. f p \<in> set ns) (mset ps)"
proof (induction ns)
  case Nil
  then show ?case by simp
next
  case (Cons n ns)
  have "filter_mset (\<lambda>p. f p = n) (mset ps) + filter_mset (\<lambda>p. f p \<in> set ns) (mset ps)
          = filter_mset (\<lambda>p. f p = n \<or> f p \<in> set ns) (mset ps)"
    using Cons.prems by (induction ps) auto
  with Cons show ?case by simp
qed

lemma filter_mset_all: "\<forall>p\<in>set ps. P p \<Longrightarrow> filter_mset P (mset ps) = mset ps"
  by (induction ps) auto

lemma grouped_registered:
  assumes inv: "grouped_toolbar alloc pages toolbar m"
  shows "mset (concat (map (\<lambda>(k, page). m_pageSettings_macos page) m)) = mset pages"
proof -
  let ?name = "\<lambda>(k, page). m_name_macos page"
  from inv have sorted: "sorted_wrt (<) (map fst m)"
    and each: "\<forall>(k, page)\<in>set m.
        m_pageSettings_macos page = filter (\<lambda>p. page_section p = m_name_macos page) pages"
    unfolding grouped_toolbar_def by blast+
  from sorted have dk: "distinct (map fst m)"
    by (rule strict_sorted_iff [THEN iffD1, THEN conjunct2])
  then have dm: "distinct m" by (simp add: distinct_map)
  have "inj_on ?name (set m)"
  proof (rule inj_onI)
    fix x y assume x: "x \<in> set m" and y: "y \<in> set m" and eq: "?name x = ?name y"
    obtain k1 p1 where x': "x = (k1, p1)" by (cases x)
    obtain k2 p2 where y': "y = (k2, p2)" by (cases y)
    from eq have n: "m_name_macos p1 = m_name_macos p2" by (simp add: x' y')
    from grouped_name_key [OF inv x [unfolded x'] y [unfolded y'] n] have k: "k1 = k2" .
    from sorted_keys_unique [OF sorted x [unfolded x'] y [unfolded y' k [symmetric]]]
    show "x = y" by (simp add: x' y' k)
  qed
  with dm have dn: "distinct (map ?name m)" by (simp add: distinct_map)
  have "map (\<lambda>(k, page). m_pageSettings_macos page) m
          = map (\<lambda>n. filter (\<lambda>p. page_section p = n) pages) (map ?name m)"
    using each by (auto simp: case_prod_beta)
  then have "mset (concat (map (\<lambda>(k, page). m_pageSettings_macos page) m))
          = filter_mset (\<lambda>p. page_section p \<in> set (map ?name m)) (mset pages)"
    by (simp only: mset_concat_filter [OF dn])
  also have "set (map ?name m) = set (map page_section pages)"
    using grouped_names [OF inv] by simp
  also have "filter_mset (\<lambda>p. page_section p \<in> set (map page_section pages)) (mset pages) = mset pages"
    by (rule filter_mset_all) simp
  finally show ?thesis .
qed

lemma acceptSettings_macos_result:
  "acceptSettings_macos d =
     (pagesCanAccept (m_pages_macos d) True,
      if pagesCanAccept (m_pages_macos d) True
      then d\<lparr>accepted_macos := accepted_macos d @ registered_macos d\<rparr>
      else d)"
  by (simp add: acceptSettings_macos_def acceptAll_macos_append registered_macos_def)

text \<open>
  C1. \<open>acceptSettings\<close> returns true exactly when every page of the dialog can accept
  its settings. Then it calls \<^verbatim>\<open>acceptSettings()\<close> once on every page, in the order of
  \<open>m_pages\<close>; otherwise it calls it on no page and leaves the dialog as it was. The
  pages of a constructed dialog are the pages given to the constructor: in their order on
  the tree-list layout, as a multiset on the toolbar layout, where toolbar items have
  distinct addresses (\<open>inj alloc\<close>).
\<close>

theorem acceptSettings_all_or_nothing:
  "fst (acceptSettings d) = (\<forall>page\<in>set (m_pages d). canAcceptSettings (m_pageSettings page)) \<and>
   accepted (snd (acceptSettings d)) =
     accepted d @ (if fst (acceptSettings d) then map m_pageSettings (m_pages d) else []) \<and>
   (\<not> fst (acceptSettings d) \<longrightarrow> snd (acceptSettings d) = d) \<and>
   map m_pageSettings (m_pages (SettingsDialog_new pages)) = pages \<and>
   fst (acceptSettings_macos m) =
     (\<forall>(k, page)\<in>set (m_pages_macos m). \<forall>s\<in>set (m_pageSettings_macos page). canAcceptSettings s) \<and>
   accepted_macos (snd (acceptSettings_macos m)) =
     accepted_macos m @ (if fst (acceptSettings_macos m) then registered_macos m else []) \<and>
   (\<not> fst (acceptSettings_macos m) \<longrightarrow> snd (acceptSettings_macos m) = m) \<and>
   (inj alloc \<and> pages \<noteq> [] \<longrightarrow>
      map_option (\<lambda>d. mset (registered_macos d)) (SettingsDialog_macos_new alloc hint pages)
        = Some (mset pages))"
proof -
  have tree: "map m_pageSettings (m_pages (SettingsDialog_new pages)) = pages"
    using registerPages_m_pages [of pages] by (simp add: SettingsDialog_new_def)
  have mac: "map_option (\<lambda>d. mset (registered_macos d)) (SettingsDialog_macos_new alloc hint pages)
        = Some (mset pages)" if "inj alloc" "pages \<noteq> []"
  proof -
    from SettingsDialog_macos_new_Some [OF that(2)]
    obtain d where d: "SettingsDialog_macos_new alloc hint pages = Some d" by blast
    from grouped_registered [OF grouped_toolbar_constructed [OF that(1) d]]
    show ?thesis by (simp add: d registered_macos_def)
  qed
  have a1: "fst (acceptSettings d) = (\<forall>page\<in>set (m_pages d). canAcceptSettings (m_pageSettings page))"
    by (simp add: acceptSettings_result okToClose_def allCanAccept_iff)
  have a2: "accepted (snd (acceptSettings d)) =
     accepted d @ (if fst (acceptSettings d) then map m_pageSettings (m_pages d) else [])"
    by (simp add: acceptSettings_result)
  have a3: "\<not> fst (acceptSettings d) \<longrightarrow> snd (acceptSettings d) = d"
    by (simp add: acceptSettings_result)
  have b1: "fst (acceptSettings_macos m) =
     (\<forall>(k, page)\<in>set (m_pages_macos m). \<forall>s\<in>set (m_pageSettings_macos page). canAcceptSettings s)"
    by (simp add: acceptSettings_macos_result pagesCanAccept_iff)
  have b2: "accepted_macos (snd (acceptSettings_macos m)) =
     accepted_macos m @ (if fst (acceptSettings_macos m) then registered_macos m else [])"
    by (simp add: acceptSettings_macos_result)
  have b3: "\<not> fst (acceptSettings_macos m) \<longrightarrow> snd (acceptSettings_macos m) = m"
    by (simp add: acceptSettings_macos_result)
  from mac have b4: "inj alloc \<and> pages \<noteq> [] \<longrightarrow>
      map_option (\<lambda>d. mset (registered_macos d)) (SettingsDialog_macos_new alloc hint pages)
        = Some (mset pages)"
    by blast
  show ?thesis
    using a1 a2 a3 tree b1 b2 b3 b4 by (intro conjI)
qed

text \<open>
  C1 at two dialogs of the tree-list layout, one whose pages all accept and one with a page
  that refuses, and at a toolbar dialog of three pages.
\<close>

theorem acceptSettings_all_or_nothing_witness:
  "fst (acceptSettings (SettingsDialog_new [pageLook, pageFonts])) \<and>
   accepted (snd (acceptSettings (SettingsDialog_new [pageLook, pageFonts]))) = [pageLook, pageFonts] \<and>
   \<not> fst (acceptSettings (SettingsDialog_new [pageLook, pageProxy])) \<and>
   snd (acceptSettings (SettingsDialog_new [pageLook, pageProxy])) = SettingsDialog_new [pageLook, pageProxy] \<and>
   inj (id :: nat \<Rightarrow> nat) \<and> [pageLook, pageProxy, pageFonts] \<noteq> [] \<and>
   map_option (\<lambda>d. mset (registered_macos d))
     (SettingsDialog_macos_new id exampleHint [pageLook, pageProxy, pageFonts])
     = Some (mset [pageLook, pageProxy, pageFonts])"
proof -
  have good: "\<forall>page\<in>set (m_pages (SettingsDialog_new [pageLook, pageFonts])).
      canAcceptSettings (m_pageSettings page)"
    by code_simp
  have bad: "\<not> (\<forall>page\<in>set (m_pages (SettingsDialog_new [pageLook, pageProxy])).
      canAcceptSettings (m_pageSettings page))"
    by code_simp
  have empty: "accepted (SettingsDialog_new [pageLook, pageFonts]) = []"
    by code_simp
  note c1 = acceptSettings_all_or_nothing [THEN conjunct1]
  note c2 = acceptSettings_all_or_nothing [THEN conjunct2, THEN conjunct1]
  note c3 = acceptSettings_all_or_nothing [THEN conjunct2, THEN conjunct2, THEN conjunct1]
  note c4 = acceptSettings_all_or_nothing
    [THEN conjunct2, THEN conjunct2, THEN conjunct2, THEN conjunct1]
  note c8 = acceptSettings_all_or_nothing
    [where alloc = id and pages = "[pageLook, pageProxy, pageFonts]" and hint = exampleHint,
     THEN conjunct2, THEN conjunct2, THEN conjunct2, THEN conjunct2, THEN conjunct2,
     THEN conjunct2, THEN conjunct2]
  from good have w1: "fst (acceptSettings (SettingsDialog_new [pageLook, pageFonts]))"
    unfolding c1 .
  have w2: "accepted (snd (acceptSettings (SettingsDialog_new [pageLook, pageFonts])))
      = [pageLook, pageFonts]"
    unfolding c2 [of "SettingsDialog_new [pageLook, pageFonts]"] empty
    using w1 by (simp add: c4)
  from bad have w3: "\<not> fst (acceptSettings (SettingsDialog_new [pageLook, pageProxy]))"
    unfolding c1 .
  from c3 [of "SettingsDialog_new [pageLook, pageProxy]"] w3
  have w4: "snd (acceptSettings (SettingsDialog_new [pageLook, pageProxy]))
      = SettingsDialog_new [pageLook, pageProxy]"
    by (rule mp)
  have w5: "inj (id :: nat \<Rightarrow> nat)" by simp
  have w6: "[pageLook, pageProxy, pageFonts] \<noteq> []" by simp
  from c8 w5 w6
  have w7: "map_option (\<lambda>d. mset (registered_macos d))
     (SettingsDialog_macos_new id exampleHint [pageLook, pageProxy, pageFonts])
     = Some (mset [pageLook, pageProxy, pageFonts])"
    by (simp only: simp_thms)
  show ?thesis using w1 w2 w3 w4 w5 w6 w7 by (intro conjI)
qed

text \<open>
  C2, as stated, fails on the toolbar layout: a dialog holding a page that cannot accept
  its settings is still allowed to close.
\<close>

theorem okToClose_macos_counterexample:
  "map_option okToClose_macos (SettingsDialog_macos_new id exampleHint [pageProxy]) = Some True \<and>
   canAcceptSettings pageProxy = False"
  by code_simp

text \<open>
  C2, amended: on the tree-list layout \<open>okToClose\<close> is true exactly when every page can
  accept its settings; on the toolbar layout it is always true.
\<close>

theorem okToClose_tree_list_iff:
  "okToClose d = (\<forall>page\<in>set (m_pages d). canAcceptSettings (m_pageSettings page)) \<and>
   okToClose (SettingsDialog_new pages) = (\<forall>page\<in>set pages. canAcceptSettings page) \<and>
   okToClose_macos m"
proof -
  have a: "okToClose d = (\<forall>page\<in>set (m_pages d). canAcceptSettings (m_pageSettings page))" for d
    by (simp add: okToClose_def allCanAccept_iff)
  have "map m_pageSettings (m_pages (SettingsDialog_new pages)) = pages"
    using registerPages_m_pages [of pages] by (simp add: SettingsDialog_new_def)
  then have "set pages = m_pageSettings ` set (m_pages (SettingsDialog_new pages))"
    by (metis list.set_map)
  then have b: "okToClose (SettingsDialog_new pages) = (\<forall>page\<in>set pages. canAcceptSettings page)"
    by (simp add: a)
  have c: "okToClose_macos m" by (simp add: okToClose_macos_def)
  show ?thesis using a [of d] b c by (intro conjI)
qed

text \<open>
  C2 amended, at a dialog whose pages all accept and at one with a page that refuses.
\<close>

theorem okToClose_tree_list_iff_witness:
  "canAcceptSettings pageLook \<and> canAcceptSettings pageFonts \<and>
   okToClose (SettingsDialog_new [pageLook, pageFonts]) \<and>
   \<not> canAcceptSettings pageProxy \<and>
   \<not> okToClose (SettingsDialog_new [pageLook, pageProxy])"
proof -
  have g1: "canAcceptSettings pageLook" by (simp add: pageLook_def)
  have g2: "canAcceptSettings pageFonts" by (simp add: pageFonts_def)
  have b1: "\<not> canAcceptSettings pageProxy" by (simp add: pageProxy_def)
  from g1 g2 have good: "\<forall>page\<in>set [pageLook, pageFonts]. canAcceptSettings page"
    by simp
  from b1 have bad: "\<not> (\<forall>page\<in>set [pageLook, pageProxy]. canAcceptSettings page)"
    by simp
  from okToClose_tree_list_iff [of _ "[pageLook, pageFonts]"] good
  have w1: "okToClose (SettingsDialog_new [pageLook, pageFonts])" by blast
  from okToClose_tree_list_iff [of _ "[pageLook, pageProxy]"] bad
  have w2: "\<not> okToClose (SettingsDialog_new [pageLook, pageProxy])" by blast
  show ?thesis using g1 g2 w1 b1 w2 by (intro conjI)
qed

text \<open>
  C3. \<open>closeEvent\<close> accepts the event and emits \<^verbatim>\<open>closed()\<close> once when \<open>okToClose\<close>
  holds; otherwise it ignores the event and changes nothing, so that a window asked to
  close stays visible. The same on the toolbar layout.
\<close>

theorem closeEvent_follows_okToClose:
  "isAccepted (fst (closeEvent event d)) = okToClose d \<and>
   closed (snd (closeEvent event d)) = (if okToClose d then Suc (closed d) else closed d) \<and>
   (\<not> okToClose d \<longrightarrow> snd (closeEvent event d) = d) \<and>
   visible (QWidget_close d) = (visible d \<and> \<not> okToClose d) \<and>
   isAccepted (fst (closeEvent_macos event m)) = okToClose_macos m \<and>
   closed_macos (snd (closeEvent_macos event m)) =
     (if okToClose_macos m then Suc (closed_macos m) else closed_macos m)"
proof -
  have a: "isAccepted (fst (closeEvent event d)) = okToClose d"
    by (simp add: closeEvent_def)
  have b: "closed (snd (closeEvent event d)) = (if okToClose d then Suc (closed d) else closed d)"
    by (simp add: closeEvent_def)
  have c: "\<not> okToClose d \<longrightarrow> snd (closeEvent event d) = d"
    by (simp add: closeEvent_def)
  have e: "visible (QWidget_close d) = (visible d \<and> \<not> okToClose d)"
    by (simp add: QWidget_close_result)
  have f: "isAccepted (fst (closeEvent_macos event m)) = okToClose_macos m"
    by (simp add: closeEvent_macos_def)
  have g: "closed_macos (snd (closeEvent_macos event m)) =
     (if okToClose_macos m then Suc (closed_macos m) else closed_macos m)"
    by (simp add: closeEvent_macos_def)
  show ?thesis using a b c e f g by (intro conjI)
qed

text \<open>
  C3 at a dialog that may not close and at one that may.
\<close>

theorem closeEvent_follows_okToClose_witness:
  "\<not> okToClose (QWidget_show (SettingsDialog_new [pageProxy])) \<and>
   \<not> isAccepted (fst (closeEvent \<lparr>isAccepted = True\<rparr> (QWidget_show (SettingsDialog_new [pageProxy])))) \<and>
   snd (closeEvent \<lparr>isAccepted = True\<rparr> (QWidget_show (SettingsDialog_new [pageProxy])))
     = QWidget_show (SettingsDialog_new [pageProxy]) \<and>
   visible (QWidget_close (QWidget_show (SettingsDialog_new [pageProxy]))) \<and>
   okToClose (QWidget_show (SettingsDialog_new [pageLook])) \<and>
   isAccepted (fst (closeEvent \<lparr>isAccepted = False\<rparr> (QWidget_show (SettingsDialog_new [pageLook])))) \<and>
   closed (snd (closeEvent \<lparr>isAccepted = False\<rparr> (QWidget_show (SettingsDialog_new [pageLook])))) = 1 \<and>
   \<not> visible (QWidget_close (QWidget_show (SettingsDialog_new [pageLook])))"
proof -
  let ?bad = "QWidget_show (SettingsDialog_new [pageProxy])"
  let ?good = "QWidget_show (SettingsDialog_new [pageLook])"
  have h1: "\<not> okToClose ?bad" by code_simp
  have h2: "okToClose ?good" by code_simp
  have v1: "visible ?bad" by (simp add: QWidget_show_def)
  have v2: "closed ?good = 0" by code_simp
  note bad = closeEvent_follows_okToClose [of "\<lparr>isAccepted = True\<rparr>" ?bad]
  note good = closeEvent_follows_okToClose [of "\<lparr>isAccepted = False\<rparr>" ?good]
  from bad h1 have w1: "\<not> isAccepted (fst (closeEvent \<lparr>isAccepted = True\<rparr> ?bad))" by blast
  from bad h1 have w2: "snd (closeEvent \<lparr>isAccepted = True\<rparr> ?bad) = ?bad" by blast
  from bad h1 v1 have w3: "visible (QWidget_close ?bad)" by blast
  from good h2 have w4: "isAccepted (fst (closeEvent \<lparr>isAccepted = False\<rparr> ?good))" by blast
  from good h2 v2 have w5: "closed (snd (closeEvent \<lparr>isAccepted = False\<rparr> ?good)) = 1" by simp
  from good h2 have w6: "\<not> visible (QWidget_close ?good)" by blast
  show ?thesis using h1 w1 w2 w3 h2 w4 w5 w6 by (intro conjI)
qed

lemma handle_connected: "connected (handle e d) = connected d"
  by (cases e)
    (simp_all add: settingsChanged_def okButton_clicked_def applyButton_clicked_def
      cancelButton_clicked_def acceptSettings_result QWidget_close_result)

lemma handle_enables:
  assumes off: "\<not> m_applyButton d" and on: "m_applyButton (handle e d)"
  shows "\<exists>pid\<in>set (connected d). e = PageSettingsChanged pid"
proof (cases e)
  case (PageSettingsChanged pid)
  with off on have "pid \<in> set (connected d)"
    by (simp add: settingsChanged_def split: if_splits)
  with PageSettingsChanged show ?thesis by blast
next
  case OkClicked
  with off on show ?thesis
    by (simp add: okButton_clicked_def acceptSettings_result QWidget_close_result split: if_splits)
next
  case ApplyClicked
  with off on show ?thesis
    by (simp add: applyButton_clicked_def acceptSettings_result split: if_splits)
next
  case CancelClicked
  with off on show ?thesis
    by (simp add: cancelButton_clicked_def QWidget_close_result split: if_splits)
next
  case CloseRequested
  with off on show ?thesis
    by (simp add: QWidget_close_result split: if_splits)
next
  case AcceptSettingsCalled
  with off on show ?thesis
    by (simp add: acceptSettings_result split: if_splits)
next
  case OkToCloseCalled
  with off on show ?thesis by simp
next
  case SizeHintCalled
  with off on show ?thesis by simp
qed

text \<open>
  C4. The Apply button of a new dialog is disabled. The only step that turns a disabled
  Apply button into an enabled one is the \<^verbatim>\<open>settingsChanged\<close> signal of a connected page,
  the connected pages being the pages given to the constructor; such a signal does enable
  it, and a successful \<open>acceptSettings\<close> leaves it disabled.
\<close>

theorem applyButton_enabled_by_settingsChanged:
  "\<not> m_applyButton (SettingsDialog_new pages) \<and>
   connected (SettingsDialog_new pages) = map page_id pages \<and>
   connected (handle e d) = connected d \<and>
   (\<not> m_applyButton d \<and> m_applyButton (handle e d) \<longrightarrow>
      (\<exists>pid\<in>set (connected d). e = PageSettingsChanged pid)) \<and>
   (pid \<in> set (connected d) \<longrightarrow> m_applyButton (settingsChanged pid d)) \<and>
   (fst (acceptSettings d) \<longrightarrow> \<not> m_applyButton (snd (acceptSettings d)))"
proof -
  have a: "\<not> m_applyButton (SettingsDialog_new pages)"
    by (simp add: SettingsDialog_new_def registerPages_fields)
  have b: "connected (SettingsDialog_new pages) = map page_id pages"
    by (simp add: SettingsDialog_new_def registerPages_fields)
  have c: "\<not> m_applyButton d \<and> m_applyButton (handle e d) \<longrightarrow>
      (\<exists>pid\<in>set (connected d). e = PageSettingsChanged pid)"
    using handle_enables by blast
  have e: "pid \<in> set (connected d) \<longrightarrow> m_applyButton (settingsChanged pid d)"
    by (simp add: settingsChanged_def)
  have f: "fst (acceptSettings d) \<longrightarrow> \<not> m_applyButton (snd (acceptSettings d))"
    by (simp add: acceptSettings_result)
  show ?thesis using a b handle_connected [of e d] c e f by (intro conjI)
qed

text \<open>
  C4 at a dialog of one page: disabled, enabled by the page's signal, disabled again by the
  commit.
\<close>

theorem applyButton_enabled_by_settingsChanged_witness:
  "\<not> m_applyButton (SettingsDialog_new [pageLook]) \<and>
   m_applyButton (handle (PageSettingsChanged 0) (SettingsDialog_new [pageLook])) \<and>
   (\<exists>pid\<in>set (connected (SettingsDialog_new [pageLook])). PageSettingsChanged 0 = PageSettingsChanged pid) \<and>
   (0::nat) \<in> set (connected (SettingsDialog_new [pageLook])) \<and>
   m_applyButton (settingsChanged 0 (SettingsDialog_new [pageLook])) \<and>
   fst (acceptSettings (settingsChanged 0 (SettingsDialog_new [pageLook]))) \<and>
   \<not> m_applyButton (snd (acceptSettings (settingsChanged 0 (SettingsDialog_new [pageLook]))))"
proof -
  let ?d = "SettingsDialog_new [pageLook]"
  note t = applyButton_enabled_by_settingsChanged
  note t1 = t [THEN conjunct1]
  note t4 = t [THEN conjunct2, THEN conjunct2, THEN conjunct2, THEN conjunct1]
  note t5 = t [THEN conjunct2, THEN conjunct2, THEN conjunct2, THEN conjunct2, THEN conjunct1]
  note t6 = t [THEN conjunct2, THEN conjunct2, THEN conjunct2, THEN conjunct2, THEN conjunct2]
  have w1: "\<not> m_applyButton ?d" by (rule t1)
  have w2: "m_applyButton (handle (PageSettingsChanged 0) ?d)" by code_simp
  from t4 [of ?d "PageSettingsChanged 0"] w1 w2
  have w3: "\<exists>pid\<in>set (connected ?d). PageSettingsChanged 0 = PageSettingsChanged pid"
    by (simp only: simp_thms)
  have w4: "(0::nat) \<in> set (connected ?d)" by code_simp
  from t5 [of 0 ?d] w4 have w5: "m_applyButton (settingsChanged 0 ?d)" by (rule mp)
  have w6: "fst (acceptSettings (settingsChanged 0 ?d))" by code_simp
  from t6 [of "settingsChanged 0 ?d"] w6
  have w7: "\<not> m_applyButton (snd (acceptSettings (settingsChanged 0 ?d)))" by (rule mp)
  show ?thesis using w1 w2 w3 w4 w5 w6 w7 by (intro conjI)
qed

text \<open>
  C5, as stated, fails when a page cannot accept its settings: Cancel leaves the window
  open, and OK neither commits nor closes.
\<close>

theorem buttons_counterexample:
  "visible (QWidget_show (SettingsDialog_new [pageProxy])) \<and>
   visible (cancelButton_clicked (QWidget_show (SettingsDialog_new [pageProxy]))) \<and>
   closed (cancelButton_clicked (QWidget_show (SettingsDialog_new [pageProxy]))) = 0 \<and>
   visible (okButton_clicked (QWidget_show (SettingsDialog_new [pageProxy]))) \<and>
   accepted (okButton_clicked (QWidget_show (SettingsDialog_new [pageProxy]))) = []"
  by code_simp

text \<open>
  C5, amended: OK calls \<open>acceptSettings\<close> and then asks the window to close, Apply only
  calls \<open>acceptSettings\<close>, Cancel only asks the window to close. When every page can
  accept its settings, OK and Apply commit every page, and OK and Cancel close the window;
  when some page cannot, nothing is committed and the window stays as it was.
\<close>

theorem buttons_commit_and_close:
  "accepted (okButton_clicked d) =
     accepted d @ (if okToClose d then map m_pageSettings (m_pages d) else []) \<and>
   visible (okButton_clicked d) = (visible d \<and> \<not> okToClose d) \<and>
   closed (okButton_clicked d) = (if okToClose d then Suc (closed d) else closed d) \<and>
   accepted (applyButton_clicked d) =
     accepted d @ (if okToClose d then map m_pageSettings (m_pages d) else []) \<and>
   visible (applyButton_clicked d) = visible d \<and>
   closed (applyButton_clicked d) = closed d \<and>
   accepted (cancelButton_clicked d) = accepted d \<and>
   visible (cancelButton_clicked d) = (visible d \<and> \<not> okToClose d) \<and>
   closed (cancelButton_clicked d) = (if okToClose d then Suc (closed d) else closed d)"
proof -
  have o1: "accepted (okButton_clicked d) =
     accepted d @ (if okToClose d then map m_pageSettings (m_pages d) else [])"
    by (simp add: okButton_clicked_def acceptSettings_result QWidget_close_result)
  have o2: "visible (okButton_clicked d) = (visible d \<and> \<not> okToClose d)"
    by (simp add: okButton_clicked_def acceptSettings_result QWidget_close_result)
  have o3: "closed (okButton_clicked d) = (if okToClose d then Suc (closed d) else closed d)"
    by (simp add: okButton_clicked_def acceptSettings_result QWidget_close_result)
  have a1: "accepted (applyButton_clicked d) =
     accepted d @ (if okToClose d then map m_pageSettings (m_pages d) else [])"
    by (simp add: applyButton_clicked_def acceptSettings_result)
  have a2: "visible (applyButton_clicked d) = visible d"
    by (simp add: applyButton_clicked_def acceptSettings_result)
  have a3: "closed (applyButton_clicked d) = closed d"
    by (simp add: applyButton_clicked_def acceptSettings_result)
  have c1: "accepted (cancelButton_clicked d) = accepted d"
    by (simp add: cancelButton_clicked_def QWidget_close_result)
  have c2: "visible (cancelButton_clicked d) = (visible d \<and> \<not> okToClose d)"
    by (simp add: cancelButton_clicked_def QWidget_close_result)
  have c3: "closed (cancelButton_clicked d) = (if okToClose d then Suc (closed d) else closed d)"
    by (simp add: cancelButton_clicked_def QWidget_close_result)
  show ?thesis using o1 o2 o3 a1 a2 a3 c1 c2 c3 by (intro conjI)
qed

text \<open>
  C5 amended, at a shown dialog whose pages all accept.
\<close>

theorem buttons_commit_and_close_witness:
  "okToClose (QWidget_show (SettingsDialog_new [pageLook, pageFonts])) \<and>
   accepted (okButton_clicked (QWidget_show (SettingsDialog_new [pageLook, pageFonts])))
     = [pageLook, pageFonts] \<and>
   \<not> visible (okButton_clicked (QWidget_show (SettingsDialog_new [pageLook, pageFonts]))) \<and>
   accepted (applyButton_clicked (QWidget_show (SettingsDialog_new [pageLook, pageFonts])))
     = [pageLook, pageFonts] \<and>
   visible (applyButton_clicked (QWidget_show (SettingsDialog_new [pageLook, pageFonts]))) \<and>
   accepted (cancelButton_clicked (QWidget_show (SettingsDialog_new [pageLook, pageFonts]))) = [] \<and>
   \<not> visible (cancelButton_clicked (QWidget_show (SettingsDialog_new [pageLook, pageFonts])))"
proof -
  let ?d = "QWidget_show (SettingsDialog_new [pageLook, pageFonts])"
  have ok: "okToClose ?d" by code_simp
  have vis: "visible ?d" by (simp add: QWidget_show_def)
  have acc: "accepted ?d = []" by code_simp
  have pgs: "map m_pageSettings (m_pages ?d) = [pageLook, pageFonts]" by code_simp
  note t = buttons_commit_and_close [of ?d]
  from t [THEN conjunct1] ok acc pgs
  have w1: "accepted (okButton_clicked ?d) = [pageLook, pageFonts]" by simp
  from t [THEN conjunct2, THEN conjunct1] ok
  have w2: "\<not> visible (okButton_clicked ?d)" by simp
  from t [THEN conjunct2, THEN conjunct2, THEN conjunct2, THEN conjunct1] ok acc pgs
  have w3: "accepted (applyButton_clicked ?d) = [pageLook, pageFonts]" by simp
  from t [THEN conjunct2, THEN conjunct2, THEN conjunct2, THEN conjunct2, THEN conjunct1] vis
  have w4: "visible (applyButton_clicked ?d)" by simp
  from t [THEN conjunct2, THEN conjunct2, THEN conjunct2, THEN conjunct2, THEN conjunct2,
          THEN conjunct2, THEN conjunct1] acc
  have w5: "accepted (cancelButton_clicked ?d) = []" by simp
  from t [THEN conjunct2, THEN conjunct2, THEN conjunct2, THEN conjunct2, THEN conjunct2,
          THEN conjunct2, THEN conjunct2, THEN conjunct1] ok
  have w6: "\<not> visible (cancelButton_clicked ?d)" by simp
  show ?thesis using ok w1 w2 w3 w4 w5 w6 by (intro conjI)
qed

lemma PageWidget_in_sectionWidgets:
  "page \<in> set pages \<Longrightarrow> PageWidget (page_id page) \<in> set (sectionWidgets pages)"
  by (induction pages rule: sectionWidgets.induct) auto

lemma sectionWidgets_hd:
  "pages \<noteq> [] \<Longrightarrow> hd (sectionWidgets pages) = PageWidget (page_id (hd pages))"
  by (cases pages rule: sectionWidgets.cases) auto

lemma sectionWidgets_pages:
  "length (filter (\<lambda>w. w \<noteq> SeparatorWidget) (sectionWidgets pages)) = length pages"
  by (induction pages rule: sectionWidgets.induct) auto

lemma sectionWidgets_separators:
  "pages \<noteq> [] \<Longrightarrow> Suc (count_list (sectionWidgets pages) SeparatorWidget) = length pages"
  by (induction pages rule: sectionWidgets.induct) auto

lemma grouped_tree_items:
  assumes "grouped_tree pages tree" and "item \<in> set tree"
  shows "item_tabs item = map tabOf (filter (\<lambda>page. page_section page = item_text item) pages)"
proof -
  from assms(2) obtain i where "i < length tree" "tree ! i = item"
    by (auto simp: in_set_conv_nth)
  with assms(1) show ?thesis
    unfolding grouped_tree_def by blast
qed

lemma grouped_tree_page:
  assumes inv: "grouped_tree pages tree" and page: "page \<in> set pages"
  shows "\<exists>item\<in>set tree. item_text item = page_section page \<and> tabOf page \<in> set (item_tabs item)"
proof -
  from inv have "set (map item_text tree) = set (map page_section pages)"
    by (simp add: grouped_tree_def)
  with page have "page_section page \<in> set (map item_text tree)"
    by (metis image_eqI list.set_map)
  then obtain item where item: "item \<in> set tree" "item_text item = page_section page"
    by (auto simp: image_iff)
  from grouped_tree_items [OF inv item(1)] page item(2)
  have "tabOf page \<in> set (item_tabs item)" by simp
  with item show ?thesis by blast
qed

lemma addPage_texts_found:
  assumes "page_section page \<in> set (map item_text (m_treeWidget d))"
  shows "map item_text (m_treeWidget (snd (addPage page d))) = map item_text (m_treeWidget d)"
proof -
  from assms obtain i where i: "findSection (page_section page) (m_treeWidget d) = Some i"
    using findSection_None [of "page_section page" "m_treeWidget d"] by (cases "findSection (page_section page) (m_treeWidget d)") auto
  from findSection_Some [OF i] have "i < length (m_treeWidget d)" by simp
  then show ?thesis
    unfolding addPage_tree_found [OF i]
    by (simp add: map_update addTab_def list_update_same_conv)
qed

lemma addPage_texts_new:
  assumes "page_section page \<notin> set (map item_text (m_treeWidget d))"
  shows "map item_text (m_treeWidget (snd (addPage page d)))
           = map item_text (m_treeWidget d) @ [page_section page]"
proof -
  from assms have "findSection (page_section page) (m_treeWidget d) = None"
    by (simp add: findSection_None)
  from addPage_tree_new [OF this] show ?thesis by simp
qed

lemma grouped_toolbar_page:
  assumes inv: "grouped_toolbar alloc pages toolbar m" and page: "page \<in> set pages"
  shows "\<exists>(k, sp)\<in>set m. (k, page_section page) \<in> set toolbar \<and>
           m_name_macos sp = page_section page \<and>
           PageWidget (page_id page) \<in> set (tw_children (m_widget_macos sp))"
proof -
  from page have "page_section page \<in> set (map page_section pages)" by simp
  with grouped_names [OF inv]
  have "page_section page \<in> (\<lambda>(k, page). m_name_macos page) ` set m" by simp
  then obtain k sp where sp: "(k, sp) \<in> set m" "m_name_macos sp = page_section page"
    by (auto simp: image_iff)
  from inv sp(1) have ps: "m_pageSettings_macos sp = filter (\<lambda>p. page_section p = m_name_macos sp) pages"
    and cs: "tw_children (m_widget_macos sp) = sectionWidgets (m_pageSettings_macos sp)"
    unfolding grouped_toolbar_def by blast+
  from ps page sp(2) have "page \<in> set (m_pageSettings_macos sp)" by simp
  from PageWidget_in_sectionWidgets [OF this] cs
  have w: "PageWidget (page_id page) \<in> set (tw_children (m_widget_macos sp))" by simp
  from inv have "(\<lambda>(k, page). (k, m_name_macos page)) ` set m = set toolbar"
    by (simp add: grouped_toolbar_def)
  with sp have "(k, page_section page) \<in> set toolbar"
    by (metis (mono_tags, lifting) image_eqI old.prod.case)
  with sp w show ?thesis by blast
qed

lemma grouped_toolbar_entry:
  assumes inv: "grouped_toolbar alloc pages toolbar m" and mem: "(k, sp) \<in> set m"
  shows "(k, m_name_macos sp) \<in> set toolbar \<and>
         m_pageSettings_macos sp = filter (\<lambda>p. page_section p = m_name_macos sp) pages \<and>
         tw_children (m_widget_macos sp) = sectionWidgets (m_pageSettings_macos sp) \<and>
         m_pageSettings_macos sp \<noteq> []"
proof -
  from inv mem have ps: "m_pageSettings_macos sp = filter (\<lambda>p. page_section p = m_name_macos sp) pages"
    and cs: "tw_children (m_widget_macos sp) = sectionWidgets (m_pageSettings_macos sp)"
    unfolding grouped_toolbar_def by blast+
  from inv have "(\<lambda>(k, page). (k, m_name_macos page)) ` set m = set toolbar"
    by (simp add: grouped_toolbar_def)
  with mem have tb: "(k, m_name_macos sp) \<in> set toolbar"
    by (metis (mono_tags, lifting) image_eqI old.prod.case)
  from mem have "m_name_macos sp \<in> (\<lambda>(k, page). m_name_macos page) ` set m"
    by (metis (mono_tags, lifting) image_eqI old.prod.case)
  with grouped_names [OF inv] have "m_name_macos sp \<in> set (map page_section pages)" by simp
  then obtain p where "p \<in> set pages" "page_section p = m_name_macos sp"
    by (auto simp: image_iff)
  then have "p \<in> set (filter (\<lambda>p. page_section p = m_name_macos sp) pages)" by simp
  then have "p \<in> set (m_pageSettings_macos sp)" by (simp only: ps)
  then have ne: "m_pageSettings_macos sp \<noteq> []" by (metis empty_iff empty_set)
  from tb ps cs ne show ?thesis by (intro conjI)
qed

lemma addPage_macos_toolbar_found:
  assumes "\<exists>(k, cp)\<in>set (m_pages_macos d). m_name_macos cp = page_section page"
  shows "m_toolbar (snd (addPage_macos alloc page d)) = m_toolbar d"
proof (cases "find (\<lambda>(k, currentPage). m_name_macos currentPage = page_section page) (m_pages_macos d)")
  case None
  from find_NoneD [OF None] assms show ?thesis by blast
next
  case (Some e)
  obtain k cp where e: "e = (k, cp)" by (cases e)
  show ?thesis
    unfolding addPage_macos_found [OF Some [unfolded e]] by simp
qed

text \<open>
  C6. After construction the top-level entries (tree items, toolbar items) carry the
  sections of the pages, each section once. The tabs of a tree item are the pages of its
  section; on the toolbar layout the page object of an item holds the pages of its section
  and their widgets, for toolbar items with distinct addresses (\<open>inj alloc\<close>), and
  construction succeeds for a non-empty list of pages. So every page's widget is under the
  entry of the page's section. Adding a page whose section has an entry leaves the
  entries as they are; adding a page of a new section appends one entry.
\<close>

theorem pages_grouped_by_section:
  "distinct (map item_text (m_treeWidget (SettingsDialog_new pages))) \<and>
   set (map item_text (m_treeWidget (SettingsDialog_new pages))) = set (map page_section pages) \<and>
   (\<forall>item\<in>set (m_treeWidget (SettingsDialog_new pages)).
      item_tabs item = map tabOf (filter (\<lambda>page. page_section page = item_text item) pages)) \<and>
   (\<forall>page\<in>set pages. \<exists>item\<in>set (m_treeWidget (SettingsDialog_new pages)).
      item_text item = page_section page \<and> tabOf page \<in> set (item_tabs item)) \<and>
   (page_section page \<in> set (map item_text (m_treeWidget d)) \<longrightarrow>
      map item_text (m_treeWidget (snd (addPage page d))) = map item_text (m_treeWidget d)) \<and>
   (page_section page \<notin> set (map item_text (m_treeWidget d)) \<longrightarrow>
      map item_text (m_treeWidget (snd (addPage page d)))
        = map item_text (m_treeWidget d) @ [page_section page]) \<and>
   (inj alloc \<and> SettingsDialog_macos_new alloc hint pages = Some m \<longrightarrow>
      distinct (map snd (m_toolbar m)) \<and>
      set (map snd (m_toolbar m)) = set (map page_section pages) \<and>
      (\<forall>(k, sp)\<in>set (m_pages_macos m).
         (k, m_name_macos sp) \<in> set (m_toolbar m) \<and>
         m_pageSettings_macos sp = filter (\<lambda>p. page_section p = m_name_macos sp) pages \<and>
         tw_children (m_widget_macos sp) = sectionWidgets (m_pageSettings_macos sp)) \<and>
      (\<forall>page\<in>set pages. \<exists>(k, sp)\<in>set (m_pages_macos m).
         (k, page_section page) \<in> set (m_toolbar m) \<and>
         m_name_macos sp = page_section page \<and>
         PageWidget (page_id page) \<in> set (tw_children (m_widget_macos sp)))) \<and>
   (pages \<noteq> [] \<longrightarrow> SettingsDialog_macos_new alloc hint pages \<noteq> None) \<and>
   ((\<exists>(k, cp)\<in>set (m_pages_macos m0). m_name_macos cp = page_section page) \<longrightarrow>
      m_toolbar (snd (addPage_macos alloc page m0)) = m_toolbar m0)"
proof -
  note inv = grouped_tree_new [of pages]
  have t1: "distinct (map item_text (m_treeWidget (SettingsDialog_new pages)))"
    using inv by (simp add: grouped_tree_def)
  have t2: "set (map item_text (m_treeWidget (SettingsDialog_new pages))) = set (map page_section pages)"
    using inv by (simp add: grouped_tree_def)
  have t3: "\<forall>item\<in>set (m_treeWidget (SettingsDialog_new pages)).
      item_tabs item = map tabOf (filter (\<lambda>page. page_section page = item_text item) pages)"
    using grouped_tree_items [OF inv] by blast
  have t4: "\<forall>page\<in>set pages. \<exists>item\<in>set (m_treeWidget (SettingsDialog_new pages)).
      item_text item = page_section page \<and> tabOf page \<in> set (item_tabs item)"
    using grouped_tree_page [OF inv] by blast
  have t5: "page_section page \<in> set (map item_text (m_treeWidget d)) \<longrightarrow>
      map item_text (m_treeWidget (snd (addPage page d))) = map item_text (m_treeWidget d)"
    using addPage_texts_found by blast
  have t6: "page_section page \<notin> set (map item_text (m_treeWidget d)) \<longrightarrow>
      map item_text (m_treeWidget (snd (addPage page d)))
        = map item_text (m_treeWidget d) @ [page_section page]"
    using addPage_texts_new by blast
  have m1: "inj alloc \<and> SettingsDialog_macos_new alloc hint pages = Some m \<longrightarrow>
      distinct (map snd (m_toolbar m)) \<and>
      set (map snd (m_toolbar m)) = set (map page_section pages) \<and>
      (\<forall>(k, sp)\<in>set (m_pages_macos m).
         (k, m_name_macos sp) \<in> set (m_toolbar m) \<and>
         m_pageSettings_macos sp = filter (\<lambda>p. page_section p = m_name_macos sp) pages \<and>
         tw_children (m_widget_macos sp) = sectionWidgets (m_pageSettings_macos sp)) \<and>
      (\<forall>page\<in>set pages. \<exists>(k, sp)\<in>set (m_pages_macos m).
         (k, page_section page) \<in> set (m_toolbar m) \<and>
         m_name_macos sp = page_section page \<and>
         PageWidget (page_id page) \<in> set (tw_children (m_widget_macos sp)))"
  proof (intro impI, elim conjE)
    assume inj: "inj alloc" and new: "SettingsDialog_macos_new alloc hint pages = Some m"
    note g = grouped_toolbar_constructed [OF inj new]
    have a: "distinct (map snd (m_toolbar m))"
      using g by (simp add: grouped_toolbar_def)
    have b: "set (map snd (m_toolbar m)) = set (map page_section pages)"
      using g by (simp add: grouped_toolbar_def)
    have c: "\<forall>(k, sp)\<in>set (m_pages_macos m).
         (k, m_name_macos sp) \<in> set (m_toolbar m) \<and>
         m_pageSettings_macos sp = filter (\<lambda>p. page_section p = m_name_macos sp) pages \<and>
         tw_children (m_widget_macos sp) = sectionWidgets (m_pageSettings_macos sp)"
      using grouped_toolbar_entry [OF g] by blast
    have e: "\<forall>page\<in>set pages. \<exists>(k, sp)\<in>set (m_pages_macos m).
         (k, page_section page) \<in> set (m_toolbar m) \<and>
         m_name_macos sp = page_section page \<and>
         PageWidget (page_id page) \<in> set (tw_children (m_widget_macos sp))"
      using grouped_toolbar_page [OF g] by blast
    show "distinct (map snd (m_toolbar m)) \<and>
      set (map snd (m_toolbar m)) = set (map page_section pages) \<and>
      (\<forall>(k, sp)\<in>set (m_pages_macos m).
         (k, m_name_macos sp) \<in> set (m_toolbar m) \<and>
         m_pageSettings_macos sp = filter (\<lambda>p. page_section p = m_name_macos sp) pages \<and>
         tw_children (m_widget_macos sp) = sectionWidgets (m_pageSettings_macos sp)) \<and>
      (\<forall>page\<in>set pages. \<exists>(k, sp)\<in>set (m_pages_macos m).
         (k, page_section page) \<in> set (m_toolbar m) \<and>
         m_name_macos sp = page_section page \<and>
         PageWidget (page_id page) \<in> set (tw_children (m_widget_macos sp)))"
      using a b c e by (intro conjI)
  qed
  have m2: "pages \<noteq> [] \<longrightarrow> SettingsDialog_macos_new alloc hint pages \<noteq> None"
    using SettingsDialog_macos_new_None by blast
  have m3: "(\<exists>(k, cp)\<in>set (m_pages_macos m0). m_name_macos cp = page_section page) \<longrightarrow>
      m_toolbar (snd (addPage_macos alloc page m0)) = m_toolbar m0"
    using addPage_macos_toolbar_found by blast
  show ?thesis using t1 t2 t3 t4 t5 t6 m1 m2 m3 by (intro conjI)
qed

text \<open>
  C9. \<^verbatim>\<open>addPage\<close> puts a separator in front of the page's widget exactly when the
  container of the section already holds a widget. In a constructed dialog every container
  is non-empty, starts with a page widget, and holds one page widget per page of its
  section and one separator less.
\<close>

theorem separator_between_pages:
  "tw_children (m_widget_macos (fst (addPage_macos alloc page m0))) =
     (case find (\<lambda>(k, cp). m_name_macos cp = page_section page) (m_pages_macos m0) of
        None \<Rightarrow> [PageWidget (page_id page)]
      | Some (k, cp) \<Rightarrow>
          tw_children (m_widget_macos cp) @
            (if tw_count (m_widget_macos cp) = 0 then [] else [SeparatorWidget]) @
            [PageWidget (page_id page)]) \<and>
   (inj alloc \<and> SettingsDialog_macos_new alloc hint pages = Some m \<longrightarrow>
      (\<forall>(k, sp)\<in>set (m_pages_macos m).
         tw_children (m_widget_macos sp) \<noteq> [] \<and>
         hd (tw_children (m_widget_macos sp)) \<noteq> SeparatorWidget \<and>
         length (filter (\<lambda>w. w \<noteq> SeparatorWidget) (tw_children (m_widget_macos sp)))
           = length (m_pageSettings_macos sp) \<and>
         Suc (count_list (tw_children (m_widget_macos sp)) SeparatorWidget)
           = length (m_pageSettings_macos sp)))"
proof -
  have step: "tw_children (m_widget_macos (fst (addPage_macos alloc page m0))) =
     (case find (\<lambda>(k, cp). m_name_macos cp = page_section page) (m_pages_macos m0) of
        None \<Rightarrow> [PageWidget (page_id page)]
      | Some (k, cp) \<Rightarrow>
          tw_children (m_widget_macos cp) @
            (if tw_count (m_widget_macos cp) = 0 then [] else [SeparatorWidget]) @
            [PageWidget (page_id page)])"
  proof (cases "find (\<lambda>(k, cp). m_name_macos cp = page_section page) (m_pages_macos m0)")
    case None
    show ?thesis
      unfolding addPage_macos_new [OF None] None by (simp add: newSection_def)
  next
    case (Some e)
    obtain k cp where e: "e = (k, cp)" by (cases e)
    show ?thesis
      unfolding addPage_macos_found [OF Some [unfolded e]] Some e
      by (simp add: extendSection_fields tw_count_def)
  qed
  have all: "inj alloc \<and> SettingsDialog_macos_new alloc hint pages = Some m \<longrightarrow>
      (\<forall>(k, sp)\<in>set (m_pages_macos m).
         tw_children (m_widget_macos sp) \<noteq> [] \<and>
         hd (tw_children (m_widget_macos sp)) \<noteq> SeparatorWidget \<and>
         length (filter (\<lambda>w. w \<noteq> SeparatorWidget) (tw_children (m_widget_macos sp)))
           = length (m_pageSettings_macos sp) \<and>
         Suc (count_list (tw_children (m_widget_macos sp)) SeparatorWidget)
           = length (m_pageSettings_macos sp))"
  proof (intro impI, elim conjE, clarify)
    fix k sp
    assume inj: "inj alloc" and new: "SettingsDialog_macos_new alloc hint pages = Some m"
      and mem: "(k, sp) \<in> set (m_pages_macos m)"
    from grouped_toolbar_entry [OF grouped_toolbar_constructed [OF inj new] mem]
    have cs: "tw_children (m_widget_macos sp) = sectionWidgets (m_pageSettings_macos sp)"
      and ne: "m_pageSettings_macos sp \<noteq> []"
      by blast+
    show "tw_children (m_widget_macos sp) \<noteq> [] \<and>
         hd (tw_children (m_widget_macos sp)) \<noteq> SeparatorWidget \<and>
         length (filter (\<lambda>w. w \<noteq> SeparatorWidget) (tw_children (m_widget_macos sp)))
           = length (m_pageSettings_macos sp) \<and>
         Suc (count_list (tw_children (m_widget_macos sp)) SeparatorWidget)
           = length (m_pageSettings_macos sp)"
      unfolding cs
      using ne by (simp add: sectionWidgets_hd sectionWidgets_pages sectionWidgets_separators)
  qed
  show ?thesis using step all by (intro conjI)
qed

text \<open>
  C10. \<open>sizeHint\<close> is the size hint of the current page's widget when a page is
  current, and the default size hint of the base widget otherwise. On the tree-list
  layout no page is ever current.
\<close>

theorem sizeHint_follows_current_page:
  "(m_currentPage d = Some page \<longrightarrow> sizeHint widgetSizeHint base d = widgetSizeHint (m_widget page)) \<and>
   (m_currentPage d = None \<longrightarrow> sizeHint widgetSizeHint base d = base) \<and>
   m_currentPage (SettingsDialog_new pages) = None \<and>
   m_currentPage (handle e d) = m_currentPage d \<and>
   (m_currentPage_macos m = Some item \<and> map_of (m_pages_macos m) item = Some sp \<longrightarrow>
      sizeHint_macos hint base m = Some (hint (m_widget_macos sp))) \<and>
   (m_currentPage_macos m = None \<longrightarrow> sizeHint_macos hint base m = Some base)"
proof -
  have a: "m_currentPage d = Some page \<longrightarrow> sizeHint widgetSizeHint base d = widgetSizeHint (m_widget page)"
    by (simp add: sizeHint_def)
  have b: "m_currentPage d = None \<longrightarrow> sizeHint widgetSizeHint base d = base"
    by (simp add: sizeHint_def)
  have reg: "m_currentPage (registerPages ps d0) = m_currentPage d0" for ps d0
    by (induction ps arbitrary: d0) (simp_all add: Let_def split_beta addPage_def)
  have c: "m_currentPage (SettingsDialog_new pages) = None"
    by (simp add: SettingsDialog_new_def reg)
  have e: "m_currentPage (handle e d) = m_currentPage d"
    by (cases e)
      (simp_all add: settingsChanged_def okButton_clicked_def applyButton_clicked_def
        cancelButton_clicked_def acceptSettings_result QWidget_close_result)
  have f: "m_currentPage_macos m = Some item \<and> map_of (m_pages_macos m) item = Some sp \<longrightarrow>
      sizeHint_macos hint base m = Some (hint (m_widget_macos sp))"
    by (simp add: sizeHint_macos_def)
  have g: "m_currentPage_macos m = None \<longrightarrow> sizeHint_macos hint base m = Some base"
    by (simp add: sizeHint_macos_def)
  show ?thesis using a b c e f g by (intro conjI)
qed

text \<open>
  C6 at three pages in two sections: two entries on either layout, and a further page of
  an existing section adds none.
\<close>

theorem pages_grouped_by_section_witness:
  "map item_text (m_treeWidget (SettingsDialog_new [pageLook, pageProxy, pageFonts]))
     = [''General'', ''Network''] \<and>
   page_section pageFonts \<in> set (map item_text (m_treeWidget (SettingsDialog_new [pageLook]))) \<and>
   map item_text (m_treeWidget (snd (addPage pageFonts (SettingsDialog_new [pageLook]))))
     = map item_text (m_treeWidget (SettingsDialog_new [pageLook])) \<and>
   page_section pageProxy \<notin> set (map item_text (m_treeWidget (SettingsDialog_new [pageLook]))) \<and>
   map item_text (m_treeWidget (snd (addPage pageProxy (SettingsDialog_new [pageLook]))))
     = map item_text (m_treeWidget (SettingsDialog_new [pageLook])) @ [page_section pageProxy] \<and>
   inj (id :: nat \<Rightarrow> nat) \<and>
   (\<exists>m. SettingsDialog_macos_new id exampleHint [pageLook, pageProxy, pageFonts] = Some m \<and>
      m_toolbar m = [(0, ''General''), (1, ''Network'')] \<and>
      distinct (map snd (m_toolbar m)) \<and>
      set (map snd (m_toolbar m)) = set (map page_section [pageLook, pageProxy, pageFonts]) \<and>
      (\<exists>(k, cp)\<in>set (m_pages_macos m). m_name_macos cp = page_section pageFonts) \<and>
      m_toolbar (snd (addPage_macos id pageFonts m)) = m_toolbar m)"
proof -
  let ?d = "SettingsDialog_new [pageLook]"
  let ?pages = "[pageLook, pageProxy, pageFonts]"
  note t = pages_grouped_by_section
  note t5 = t [THEN conjunct2, THEN conjunct2, THEN conjunct2, THEN conjunct2, THEN conjunct1]
  note t6 = t [THEN conjunct2, THEN conjunct2, THEN conjunct2, THEN conjunct2, THEN conjunct2,
               THEN conjunct1]
  note m1 = t [THEN conjunct2, THEN conjunct2, THEN conjunct2, THEN conjunct2, THEN conjunct2,
               THEN conjunct2, THEN conjunct1]
  note m2 = t [THEN conjunct2, THEN conjunct2, THEN conjunct2, THEN conjunct2, THEN conjunct2,
               THEN conjunct2, THEN conjunct2, THEN conjunct1]
  note m3 = t [THEN conjunct2, THEN conjunct2, THEN conjunct2, THEN conjunct2, THEN conjunct2,
               THEN conjunct2, THEN conjunct2, THEN conjunct2]
  have w0: "map item_text (m_treeWidget (SettingsDialog_new ?pages)) = [''General'', ''Network'']"
    by code_simp
  have w1: "page_section pageFonts \<in> set (map item_text (m_treeWidget ?d))"
    by code_simp
  from t5 [of pageFonts ?d] w1
  have w2: "map item_text (m_treeWidget (snd (addPage pageFonts ?d))) = map item_text (m_treeWidget ?d)"
    by (rule mp)
  have w3: "page_section pageProxy \<notin> set (map item_text (m_treeWidget ?d))"
    by code_simp
  from t6 [of pageProxy ?d] w3
  have w4: "map item_text (m_treeWidget (snd (addPage pageProxy ?d)))
     = map item_text (m_treeWidget ?d) @ [page_section pageProxy]"
    by (rule mp)
  have w5: "inj (id :: nat \<Rightarrow> nat)" by simp
  have ne: "?pages \<noteq> []" by simp
  from m2 [of ?pages id exampleHint] ne
  obtain m where m: "SettingsDialog_macos_new id exampleHint ?pages = Some m"
    by blast
  have "map_option m_toolbar (SettingsDialog_macos_new id exampleHint ?pages)
      = Some [(0, ''General''), (1, ''Network'')]"
    by code_simp
  with m have tb: "m_toolbar m = [(0, ''General''), (1, ''Network'')]" by simp
  from m1 [of id exampleHint ?pages m] conjI [OF w5 m]
  have g: "distinct (map snd (m_toolbar m)) \<and>
      set (map snd (m_toolbar m)) = set (map page_section ?pages) \<and>
      (\<forall>(k, sp)\<in>set (m_pages_macos m).
         (k, m_name_macos sp) \<in> set (m_toolbar m) \<and>
         m_pageSettings_macos sp = filter (\<lambda>p. page_section p = m_name_macos sp) ?pages \<and>
         tw_children (m_widget_macos sp) = sectionWidgets (m_pageSettings_macos sp)) \<and>
      (\<forall>page\<in>set ?pages. \<exists>(k, sp)\<in>set (m_pages_macos m).
         (k, page_section page) \<in> set (m_toolbar m) \<and>
         m_name_macos sp = page_section page \<and>
         PageWidget (page_id page) \<in> set (tw_children (m_widget_macos sp)))"
    by (rule mp)
  from g have g1: "distinct (map snd (m_toolbar m))" by (rule conjunct1)
  from g have g2: "set (map snd (m_toolbar m)) = set (map page_section ?pages)"
    by (rule conjunct2 [THEN conjunct1])
  from g have "\<forall>page\<in>set ?pages. \<exists>(k, sp)\<in>set (m_pages_macos m).
         (k, page_section page) \<in> set (m_toolbar m) \<and>
         m_name_macos sp = page_section page \<and>
         PageWidget (page_id page) \<in> set (tw_children (m_widget_macos sp))"
    by (rule conjunct2 [THEN conjunct2, THEN conjunct2])
  then have g3: "\<exists>(k, cp)\<in>set (m_pages_macos m). m_name_macos cp = page_section pageFonts"
    by fastforce
  from m3 [of m pageFonts id] g3
  have g4: "m_toolbar (snd (addPage_macos id pageFonts m)) = m_toolbar m"
    by (rule mp)
  have ex: "\<exists>m. SettingsDialog_macos_new id exampleHint ?pages = Some m \<and>
      m_toolbar m = [(0, ''General''), (1, ''Network'')] \<and>
      distinct (map snd (m_toolbar m)) \<and>
      set (map snd (m_toolbar m)) = set (map page_section ?pages) \<and>
      (\<exists>(k, cp)\<in>set (m_pages_macos m). m_name_macos cp = page_section pageFonts) \<and>
      m_toolbar (snd (addPage_macos id pageFonts m)) = m_toolbar m"
    using m tb g1 g2 g3 g4 by (intro exI [of _ m] conjI)
  show ?thesis using w0 w1 w2 w3 w4 w5 ex by (intro conjI)
qed

text \<open>
  C9 at three pages in two sections: the containers hold page, separator, page and a
  single page.
\<close>

theorem separator_between_pages_witness:
  "inj (id :: nat \<Rightarrow> nat) \<and>
   (\<exists>m. SettingsDialog_macos_new id exampleHint [pageLook, pageProxy, pageFonts] = Some m \<and>
      map (\<lambda>(k, sp). tw_children (m_widget_macos sp)) (m_pages_macos m)
        = [[PageWidget 0, SeparatorWidget, PageWidget 2], [PageWidget 1]] \<and>
      (\<forall>(k, sp)\<in>set (m_pages_macos m).
         tw_children (m_widget_macos sp) \<noteq> [] \<and>
         hd (tw_children (m_widget_macos sp)) \<noteq> SeparatorWidget \<and>
         length (filter (\<lambda>w. w \<noteq> SeparatorWidget) (tw_children (m_widget_macos sp)))
           = length (m_pageSettings_macos sp) \<and>
         Suc (count_list (tw_children (m_widget_macos sp)) SeparatorWidget)
           = length (m_pageSettings_macos sp)))"
proof -
  let ?pages = "[pageLook, pageProxy, pageFonts]"
  have w: "inj (id :: nat \<Rightarrow> nat)" by simp
  obtain m where m: "SettingsDialog_macos_new id exampleHint ?pages = Some m"
    using SettingsDialog_macos_new_Some [of ?pages id exampleHint] by auto
  have "map_option (\<lambda>m. map (\<lambda>(k, sp). tw_children (m_widget_macos sp)) (m_pages_macos m))
          (SettingsDialog_macos_new id exampleHint ?pages)
      = Some [[PageWidget 0, SeparatorWidget, PageWidget 2], [PageWidget 1]]"
    by code_simp
  with m have cs: "map (\<lambda>(k, sp). tw_children (m_widget_macos sp)) (m_pages_macos m)
        = [[PageWidget 0, SeparatorWidget, PageWidget 2], [PageWidget 1]]"
    by simp
  from separator_between_pages [THEN conjunct2, of id exampleHint ?pages m] conjI [OF w m]
  have all: "\<forall>(k, sp)\<in>set (m_pages_macos m).
         tw_children (m_widget_macos sp) \<noteq> [] \<and>
         hd (tw_children (m_widget_macos sp)) \<noteq> SeparatorWidget \<and>
         length (filter (\<lambda>w. w \<noteq> SeparatorWidget) (tw_children (m_widget_macos sp)))
           = length (m_pageSettings_macos sp) \<and>
         Suc (count_list (tw_children (m_widget_macos sp)) SeparatorWidget)
           = length (m_pageSettings_macos sp)"
    by (rule mp)
  have ex: "\<exists>m. SettingsDialog_macos_new id exampleHint ?pages = Some m \<and>
      map (\<lambda>(k, sp). tw_children (m_widget_macos sp)) (m_pages_macos m)
        = [[PageWidget 0, SeparatorWidget, PageWidget 2], [PageWidget 1]] \<and>
      (\<forall>(k, sp)\<in>set (m_pages_macos m).
         tw_children (m_widget_macos sp) \<noteq> [] \<and>
         hd (tw_children (m_widget_macos sp)) \<noteq> SeparatorWidget \<and>
         length (filter (\<lambda>w. w \<noteq> SeparatorWidget) (tw_children (m_widget_macos sp)))
           = length (m_pageSettings_macos sp) \<and>
         Suc (count_list (tw_children (m_widget_macos sp)) SeparatorWidget)
           = length (m_pageSettings_macos sp))"
    using m cs all by (intro exI [of _ m] conjI)
  show ?thesis using w ex by (intro conjI)
qed

text \<open>
  C10 at a tree-list dialog with and without a current page, at a constructed toolbar
  dialog and at a toolbar dialog without a current page.
\<close>

theorem sizeHint_follows_current_page_witness:
  "m_currentPage ((SettingsDialog_new [pageLook])
      \<lparr>m_currentPage := Some (fst (addPage pageLook (SettingsDialog_new [])))\<rparr>)
     = Some (fst (addPage pageLook (SettingsDialog_new []))) \<and>
   sizeHint exampleWidgetHint (640, 480)
     ((SettingsDialog_new [pageLook])
        \<lparr>m_currentPage := Some (fst (addPage pageLook (SettingsDialog_new [])))\<rparr>) = (200, 100) \<and>
   m_currentPage (SettingsDialog_new [pageLook]) = None \<and>
   sizeHint exampleWidgetHint (640, 480) (SettingsDialog_new [pageLook]) = (640, 480) \<and>
   (\<exists>m sp. SettingsDialog_macos_new id exampleHint [pageLook, pageProxy, pageFonts] = Some m \<and>
      m_currentPage_macos m = Some 0 \<and> map_of (m_pages_macos m) 0 = Some sp \<and>
      sizeHint_macos exampleHint (640, 480) m = Some (300, 60)) \<and>
   m_currentPage_macos initial_macos = None \<and>
   sizeHint_macos exampleHint (640, 480) initial_macos = Some (640, 480)"
proof -
  let ?p = "fst (addPage pageLook (SettingsDialog_new []))"
  let ?d = "(SettingsDialog_new [pageLook])\<lparr>m_currentPage := Some ?p\<rparr>"
  let ?pages = "[pageLook, pageProxy, pageFonts]"
  note t = sizeHint_follows_current_page
  note t1 = t [THEN conjunct1]
  note t2 = t [THEN conjunct2, THEN conjunct1]
  note t3 = t [THEN conjunct2, THEN conjunct2, THEN conjunct1]
  note t5 = t [THEN conjunct2, THEN conjunct2, THEN conjunct2, THEN conjunct2, THEN conjunct1]
  note t6 = t [THEN conjunct2, THEN conjunct2, THEN conjunct2, THEN conjunct2, THEN conjunct2]
  have w1: "m_currentPage ?d = Some ?p" by simp
  from t1 [of ?d ?p exampleWidgetHint "(640, 480)"] w1
  have "sizeHint exampleWidgetHint (640, 480) ?d = exampleWidgetHint (m_widget ?p)"
    by (rule mp)
  also have "exampleWidgetHint (m_widget ?p) = (200, 100)" by code_simp
  finally have w2: "sizeHint exampleWidgetHint (640, 480) ?d = (200, 100)" .
  have w3: "m_currentPage (SettingsDialog_new [pageLook]) = None" by (rule t3)
  from t2 [of "SettingsDialog_new [pageLook]" exampleWidgetHint "(640, 480)"] w3
  have w4: "sizeHint exampleWidgetHint (640, 480) (SettingsDialog_new [pageLook]) = (640, 480)"
    by (rule mp)
  obtain m where m: "SettingsDialog_macos_new id exampleHint ?pages = Some m"
    using SettingsDialog_macos_new_Some [of ?pages id exampleHint] by auto
  have "map_option m_currentPage_macos (SettingsDialog_macos_new id exampleHint ?pages) = Some (Some 0)"
    by code_simp
  with m have cur: "m_currentPage_macos m = Some 0" by simp
  have "map_option (\<lambda>m. map_option (\<lambda>sp. exampleHint (m_widget_macos sp)) (map_of (m_pages_macos m) 0))
          (SettingsDialog_macos_new id exampleHint ?pages) = Some (Some (300, 60))"
    by code_simp
  with m obtain sp where sp: "map_of (m_pages_macos m) 0 = Some sp"
    "exampleHint (m_widget_macos sp) = (300, 60)"
    by auto
  from t5 [of m 0 sp exampleHint "(640, 480)"] conjI [OF cur sp(1)]
  have "sizeHint_macos exampleHint (640, 480) m = Some (exampleHint (m_widget_macos sp))"
    by (rule mp)
  with sp(2) have sh: "sizeHint_macos exampleHint (640, 480) m = Some (300, 60)" by simp
  have w5: "\<exists>m sp. SettingsDialog_macos_new id exampleHint ?pages = Some m \<and>
      m_currentPage_macos m = Some 0 \<and> map_of (m_pages_macos m) 0 = Some sp \<and>
      sizeHint_macos exampleHint (640, 480) m = Some (300, 60)"
    using m cur sp(1) sh by (intro exI [of _ m] exI [of _ sp] conjI)
  have w6: "m_currentPage_macos initial_macos = None" by (simp add: initial_macos_def)
  from t6 [of initial_macos exampleHint "(640, 480)"] w6
  have w7: "sizeHint_macos exampleHint (640, 480) initial_macos = Some (640, 480)"
    by (rule mp)
  show ?thesis using w1 w2 w3 w4 w5 w6 w7 by (intro conjI)
qed

text \<open>
  C7, as stated, at a dialog of two sections whose second toolbar item is activated: the
  animation resizes the dialog to 300 by 60, while the size hint of the incoming page,
  which \<open>sizeHint\<close> then returns, is 100 by 60.
\<close>

theorem toolbarItem_activated_counterexample:
  "map_option animationTargets
     (Option.bind (SettingsDialog_macos_new id exampleHint [pageLook, pageProxy])
        (toolbarItem_activated exampleHint exampleGeom 1))
     = Some [(DialogProperty ''size'', VSize (300, 60)),
             (DialogProperty ''minimumSize'', VSize (300, 60)),
             (DialogProperty ''maximumSize'', VSize (300, 60)),
             (OpacityEffect 0, VInt 0),
             (OpacityEffect 1, VInt 1)] \<and>
   Option.bind
     (Option.bind (SettingsDialog_macos_new id exampleHint [pageLook, pageProxy])
        (toolbarItem_activated exampleHint exampleGeom 1))
     (sizeHint_macos exampleHint (640, 480)) = Some (100, 60)"
  by code_simp

lemma map_of_qmap_insert_same: "map_of (qmap_insert k v m) k = Some v"
  by (simp add: map_of_qmap_insert)

text \<open>
  C7, amended. When no page is current, the activated page becomes current, its container
  is made opaque, and no animation group is started or stopped. When the container of the
  activated page is the container of the current page, nothing changes. Otherwise a
  running group is stopped, a new group is started whose animations take the dialog's
  size, minimum size and maximum size to the width \<open>m_maximumWidth\<close> of the dialog and
  the height of the incoming container's size hint, the outgoing container's opacity to 0
  and the incoming container's opacity to 1, and the activated page is current at once.
\<close>

theorem toolbarItem_activated_cases:
  "(map_of (m_pages_macos d) item = Some sp \<and> m_currentPage_macos d = None \<longrightarrow>
      (\<exists>d'. toolbarItem_activated hint geom item d = Some d' \<and>
         m_currentPage_macos d' = Some item \<and>
         map_option (\<lambda>p. tw_opacity (m_widget_macos p)) (map_of (m_pages_macos d') item) = Some 1 \<and>
         m_animationGroup d' = m_animationGroup d \<and> stopped d' = stopped d)) \<and>
   (map_of (m_pages_macos d) item = Some sp \<and> m_currentPage_macos d = Some current \<and>
    map_of (m_pages_macos d) current = Some cur \<and>
    map_of (m_pages_macos d) (m_toolbarItem cur) = Some cp \<and>
    tw_id (m_widget_macos cp) = tw_id (m_widget_macos sp) \<longrightarrow>
      toolbarItem_activated hint geom item d = Some d) \<and>
   (map_of (m_pages_macos d) item = Some sp \<and> m_currentPage_macos d = Some current \<and>
    map_of (m_pages_macos d) current = Some cur \<and>
    map_of (m_pages_macos d) (m_toolbarItem cur) = Some cp \<and>
    tw_id (m_widget_macos cp) \<noteq> tw_id (m_widget_macos sp) \<longrightarrow>
      (\<exists>d'. toolbarItem_activated hint geom item d = Some d' \<and>
         stopped d' = stopped d @ (case m_animationGroup d of None \<Rightarrow> [] | Some running \<Rightarrow> [running]) \<and>
         m_animationGroup d' \<noteq> None \<and>
         animationTargets d' =
           [(DialogProperty ''size'', VSize (m_maximumWidth d, snd (hint (m_widget_macos sp)))),
            (DialogProperty ''minimumSize'', VSize (m_maximumWidth d, snd (hint (m_widget_macos sp)))),
            (DialogProperty ''maximumSize'', VSize (m_maximumWidth d, snd (hint (m_widget_macos sp)))),
            (OpacityEffect (tw_id (m_widget_macos cp)), VInt 0),
            (OpacityEffect (tw_id (m_widget_macos sp)), VInt 1)] \<and>
         m_currentPage_macos d' = Some item \<and>
         m_pages_macos d' = m_pages_macos d))"
proof -
  have a: "map_of (m_pages_macos d) item = Some sp \<and> m_currentPage_macos d = None \<longrightarrow>
      (\<exists>d'. toolbarItem_activated hint geom item d = Some d' \<and>
         m_currentPage_macos d' = Some item \<and>
         map_option (\<lambda>p. tw_opacity (m_widget_macos p)) (map_of (m_pages_macos d') item) = Some 1 \<and>
         m_animationGroup d' = m_animationGroup d \<and> stopped d' = stopped d)"
    by (simp add: toolbarItem_activated_def Let_def map_of_qmap_insert_same tw_setOpacity_def)
  have b: "map_of (m_pages_macos d) item = Some sp \<and> m_currentPage_macos d = Some current \<and>
    map_of (m_pages_macos d) current = Some cur \<and>
    map_of (m_pages_macos d) (m_toolbarItem cur) = Some cp \<and>
    tw_id (m_widget_macos cp) = tw_id (m_widget_macos sp) \<longrightarrow>
      toolbarItem_activated hint geom item d = Some d"
    by (simp add: toolbarItem_activated_def Let_def)
  have c: "map_of (m_pages_macos d) item = Some sp \<and> m_currentPage_macos d = Some current \<and>
    map_of (m_pages_macos d) current = Some cur \<and>
    map_of (m_pages_macos d) (m_toolbarItem cur) = Some cp \<and>
    tw_id (m_widget_macos cp) \<noteq> tw_id (m_widget_macos sp) \<longrightarrow>
      (\<exists>d'. toolbarItem_activated hint geom item d = Some d' \<and>
         stopped d' = stopped d @ (case m_animationGroup d of None \<Rightarrow> [] | Some running \<Rightarrow> [running]) \<and>
         m_animationGroup d' \<noteq> None \<and>
         animationTargets d' =
           [(DialogProperty ''size'', VSize (m_maximumWidth d, snd (hint (m_widget_macos sp)))),
            (DialogProperty ''minimumSize'', VSize (m_maximumWidth d, snd (hint (m_widget_macos sp)))),
            (DialogProperty ''maximumSize'', VSize (m_maximumWidth d, snd (hint (m_widget_macos sp)))),
            (OpacityEffect (tw_id (m_widget_macos cp)), VInt 0),
            (OpacityEffect (tw_id (m_widget_macos sp)), VInt 1)] \<and>
         m_currentPage_macos d' = Some item \<and>
         m_pages_macos d' = m_pages_macos d)"
    by (cases "m_animationGroup d")
      (simp_all add: toolbarItem_activated_def Let_def animationTargets_def sizeAnimation_def)
  show ?thesis using a b c by (intro conjI)
qed

text \<open>
  C7 amended, at a dialog without a current page and at a constructed dialog whose current
  item and whose other item are activated.
\<close>

theorem toolbarItem_activated_cases_witness:
  "(\<exists>d'. toolbarItem_activated exampleHint exampleGeom 1
            (registerPages_macos id [pageLook, pageProxy] initial_macos) = Some d' \<and>
      m_currentPage_macos d' = Some 1 \<and>
      map_option (\<lambda>p. tw_opacity (m_widget_macos p)) (map_of (m_pages_macos d') 1) = Some 1 \<and>
      m_animationGroup d' = None) \<and>
   (\<exists>m. SettingsDialog_macos_new id exampleHint [pageLook, pageProxy] = Some m \<and>
      m_currentPage_macos m = Some 0 \<and>
      toolbarItem_activated exampleHint exampleGeom 0 m = Some m \<and>
      (\<exists>d'. toolbarItem_activated exampleHint exampleGeom 1 m = Some d' \<and>
         stopped d' = [] \<and>
         animationTargets d' =
           [(DialogProperty ''size'', VSize (300, 60)),
            (DialogProperty ''minimumSize'', VSize (300, 60)),
            (DialogProperty ''maximumSize'', VSize (300, 60)),
            (OpacityEffect 0, VInt 0),
            (OpacityEffect 1, VInt 1)] \<and>
         m_currentPage_macos d' = Some 1))"
proof -
  let ?d0 = "registerPages_macos id [pageLook, pageProxy] initial_macos"
  let ?pages = "[pageLook, pageProxy]"
  note t = toolbarItem_activated_cases
  note ta = t [THEN conjunct1]
  note tb = t [THEN conjunct2, THEN conjunct1]
  note tc = t [THEN conjunct2, THEN conjunct2]
  \<comment> \<open>no page is current\<close>
  have "map_option m_name_macos (map_of (m_pages_macos ?d0) 1) = Some ''Network''"
    by code_simp
  then obtain sp0 where sp0: "map_of (m_pages_macos ?d0) 1 = Some sp0" by auto
  have none: "m_currentPage_macos ?d0 = None" by code_simp
  have nogroup: "m_animationGroup ?d0 = None" by code_simp
  from ta [of ?d0 1 sp0 exampleHint exampleGeom] conjI [OF sp0 none]
  have "\<exists>d'. toolbarItem_activated exampleHint exampleGeom 1 ?d0 = Some d' \<and>
         m_currentPage_macos d' = Some 1 \<and>
         map_option (\<lambda>p. tw_opacity (m_widget_macos p)) (map_of (m_pages_macos d') 1) = Some 1 \<and>
         m_animationGroup d' = m_animationGroup ?d0 \<and> stopped d' = stopped ?d0"
    by (rule mp)
  then have w1: "\<exists>d'. toolbarItem_activated exampleHint exampleGeom 1 ?d0 = Some d' \<and>
      m_currentPage_macos d' = Some 1 \<and>
      map_option (\<lambda>p. tw_opacity (m_widget_macos p)) (map_of (m_pages_macos d') 1) = Some 1 \<and>
      m_animationGroup d' = None"
    unfolding nogroup by blast
  \<comment> \<open>a constructed dialog: the first page is current\<close>
  obtain m where m: "SettingsDialog_macos_new id exampleHint ?pages = Some m"
    using SettingsDialog_macos_new_Some [of ?pages id exampleHint] by auto
  have "map_option m_currentPage_macos (SettingsDialog_macos_new id exampleHint ?pages) = Some (Some 0)"
    by code_simp
  with m have cur: "m_currentPage_macos m = Some 0" by simp
  have "map_option (\<lambda>m. map_option (\<lambda>p. (tw_id (m_widget_macos p), m_toolbarItem p))
          (map_of (m_pages_macos m) 0)) (SettingsDialog_macos_new id exampleHint ?pages)
      = Some (Some (0, 0))"
    by code_simp
  with m obtain cp where cp: "map_of (m_pages_macos m) 0 = Some cp"
    "tw_id (m_widget_macos cp) = 0" "m_toolbarItem cp = 0"
    by auto
  from cp have cp': "map_of (m_pages_macos m) (m_toolbarItem cp) = Some cp" by simp
  have "map_option (\<lambda>m. map_option (\<lambda>p. (tw_id (m_widget_macos p), snd (exampleHint (m_widget_macos p))))
          (map_of (m_pages_macos m) 1)) (SettingsDialog_macos_new id exampleHint ?pages)
      = Some (Some (1, 60))"
    by code_simp
  with m obtain sp where sp: "map_of (m_pages_macos m) 1 = Some sp"
    "tw_id (m_widget_macos sp) = 1" "snd (exampleHint (m_widget_macos sp)) = 60"
    by auto
  have "map_option (\<lambda>m. (m_maximumWidth m, m_animationGroup m, stopped m))
          (SettingsDialog_macos_new id exampleHint ?pages) = Some (300, None, [])"
    by code_simp
  with m have st: "m_maximumWidth m = 300" "m_animationGroup m = None" "stopped m = []"
    by auto
  \<comment> \<open>the current page is activated again\<close>
  have same: "tw_id (m_widget_macos cp) = tw_id (m_widget_macos cp)" ..
  from tb [of m 0 cp 0 cp cp exampleHint exampleGeom]
    conjI [OF cp(1) conjI [OF cur conjI [OF cp(1) conjI [OF cp' same]]]]
  have w2: "toolbarItem_activated exampleHint exampleGeom 0 m = Some m"
    by (rule mp)
  \<comment> \<open>the other page is activated\<close>
  from cp(2) sp(2) have diff: "tw_id (m_widget_macos cp) \<noteq> tw_id (m_widget_macos sp)" by simp
  from tc [of m 1 sp 0 cp cp exampleHint exampleGeom]
    conjI [OF sp(1) conjI [OF cur conjI [OF cp(1) conjI [OF cp' diff]]]]
  have "\<exists>d'. toolbarItem_activated exampleHint exampleGeom 1 m = Some d' \<and>
         stopped d' = stopped m @ (case m_animationGroup m of None \<Rightarrow> [] | Some running \<Rightarrow> [running]) \<and>
         m_animationGroup d' \<noteq> None \<and>
         animationTargets d' =
           [(DialogProperty ''size'', VSize (m_maximumWidth m, snd (exampleHint (m_widget_macos sp)))),
            (DialogProperty ''minimumSize'', VSize (m_maximumWidth m, snd (exampleHint (m_widget_macos sp)))),
            (DialogProperty ''maximumSize'', VSize (m_maximumWidth m, snd (exampleHint (m_widget_macos sp)))),
            (OpacityEffect (tw_id (m_widget_macos cp)), VInt 0),
            (OpacityEffect (tw_id (m_widget_macos sp)), VInt 1)] \<and>
         m_currentPage_macos d' = Some 1 \<and>
         m_pages_macos d' = m_pages_macos m"
    by (rule mp)
  then have w3: "\<exists>d'. toolbarItem_activated exampleHint exampleGeom 1 m = Some d' \<and>
         stopped d' = [] \<and>
         animationTargets d' =
           [(DialogProperty ''size'', VSize (300, 60)),
            (DialogProperty ''minimumSize'', VSize (300, 60)),
            (DialogProperty ''maximumSize'', VSize (300, 60)),
            (OpacityEffect 0, VInt 0),
            (OpacityEffect 1, VInt 1)] \<and>
         m_currentPage_macos d' = Some 1"
    unfolding st cp(2) sp(2) sp(3) by auto
  have ex: "\<exists>m. SettingsDialog_macos_new id exampleHint ?pages = Some m \<and>
      m_currentPage_macos m = Some 0 \<and>
      toolbarItem_activated exampleHint exampleGeom 0 m = Some m \<and>
      (\<exists>d'. toolbarItem_activated exampleHint exampleGeom 1 m = Some d' \<and>
         stopped d' = [] \<and>
         animationTargets d' =
           [(DialogProperty ''size'', VSize (300, 60)),
            (DialogProperty ''minimumSize'', VSize (300, 60)),
            (DialogProperty ''maximumSize'', VSize (300, 60)),
            (OpacityEffect 0, VInt 0),
            (OpacityEffect 1, VInt 1)] \<and>
         m_currentPage_macos d' = Some 1)"
    by (rule exI [of _ m]) (intro conjI m cur w2 w3)
  show ?thesis using w1 ex by (intro conjI)
qed

end
